theory Spec2Isabelle
  imports Main "HOL-Library.Word" "HOL-Library.Log_Nat"
begin

section \<open>Merkle accumulator (grayscaler.py)\<close>

text \<open>
  \<^verbatim>\<open>hashlib.sha256(...).hexdigest()\<close> is an external library function. Every definition
  that hashes takes it as the parameter \<open>sha\<close>, from bytes to the hex digest string.
  A Python \<open>str\<close> is modelled as a \<open>string\<close> whose characters are the code points
  0 to 255; \<open>encode\<close> is \<^verbatim>\<open>str.encode()\<close> (UTF-8) on those code points.
\<close>

type_synonym byte = "8 word"
type_synonym sha256 = "byte list \<Rightarrow> string"

definition encode_char :: "char \<Rightarrow> byte list" where
  "encode_char c =
     (let n = (of_char c :: nat)
      in if n < 128 then [of_nat n]
         else [of_nat (192 + n div 64), of_nat (128 + n mod 64)])"

definition encode :: "string \<Rightarrow> byte list" where
  "encode s = concat (map encode_char s)"

text \<open>
  \<^verbatim>\<open>
  def hash_file_name(content):
      hasher = hashlib.sha256()
      hasher.update(content.encode())
      return hasher.hexdigest()
  \<close>
\<close>

definition hash_file_name :: "sha256 \<Rightarrow> string \<Rightarrow> string" where
  "hash_file_name sha content = sha (encode content)"

text \<open>\<^verbatim>\<open>range(0, n, 2)\<close>: the even indices below \<open>n\<close>, increasing.\<close>

definition range_step2 :: "nat \<Rightarrow> nat list" where
  "range_step2 n = map (\<lambda>k. 2 * k) [0..<(n + 1) div 2]"

text \<open>
  The body of the \<^verbatim>\<open>for\<close> loop of \<^verbatim>\<open>create_merkle_root\<close>:
  \<^verbatim>\<open>
  combined_hash = hash_file_name(hashes[i] + (hashes[i + 1] if i + 1 < len(hashes) else ''))
  new_hashes.append(combined_hash)
  \<close>
  The index \<open>i\<close> comes from \<^verbatim>\<open>range(0, len(hashes), 2)\<close>, so \<open>hashes[i]\<close> is in range.
\<close>

definition combined_hash :: "sha256 \<Rightarrow> string list \<Rightarrow> nat \<Rightarrow> string" where
  "combined_hash sha hashes i =
     hash_file_name sha (hashes ! i @ (if i + 1 < length hashes then hashes ! (i + 1) else ''''))"

definition new_hashes :: "sha256 \<Rightarrow> string list \<Rightarrow> string list" where
  "new_hashes sha hashes =
     foldl (\<lambda>acc i. acc @ [combined_hash sha hashes i]) [] (range_step2 (length hashes))"

text \<open>
  \<^verbatim>\<open>
  def create_merkle_root(hashes):
      if len(hashes) == 1:
          return hashes[0]
      new_hashes = []
      for i in range(0, len(hashes), 2): ...
      return create_merkle_root(new_hashes)
  \<close>
  The recursion has no case for the empty list, so the function is partial: \<open>None\<close> is
  "the call does not return a value".
\<close>

partial_function (option) create_merkle_root :: "sha256 \<Rightarrow> string list \<Rightarrow> string option" where
  "create_merkle_root sha hashes =
     (if length hashes = 1 then Some (hashes ! 0)
      else create_merkle_root sha (new_hashes sha hashes))"

text \<open>
  A stand-in for \<open>sha\<close> on concrete inputs: the bytes as characters, in parentheses,
  so that a digest shows how it was combined.
\<close>

definition toy_sha :: sha256 where
  "toy_sha bs = ''('' @ map (\<lambda>b. char_of (unat b)) bs @ '')''"

subsection \<open>The reference algorithm of the specification\<close>

text \<open>
  The specification's words: pair elements left to right within the current level; the
  final unpaired hash of an odd level is combined with the empty string on the right;
  repeat level by level until exactly one hash remains; one hash is returned unchanged.
\<close>

fun pair_level :: "sha256 \<Rightarrow> string list \<Rightarrow> string list" where
  "pair_level sha [] = []"
| "pair_level sha [l] = [hash_file_name sha (l @ '''')]"
| "pair_level sha (l # r # rest) = hash_file_name sha (l @ r) # pair_level sha rest"

lemma length_pair_level: "length (pair_level sha hs) = (length hs + 1) div 2"
  by (induction sha hs rule: pair_level.induct) simp_all

text \<open>
  The reference is stated for non-empty input only; on the empty list it gives the empty
  string, a value no theorem below relies on.
\<close>

function merkle_reference :: "sha256 \<Rightarrow> string list \<Rightarrow> string" where
  "merkle_reference sha [] = ''''"
| "merkle_reference sha [h] = h"
| "merkle_reference sha (l # r # rest) = merkle_reference sha (pair_level sha (l # r # rest))"
  by pat_completeness auto
termination
  by (relation "measure (\<lambda>(sha, hs). length hs)") (simp_all add: length_pair_level)

section \<open>Python values, exceptions and the log\<close>

text \<open>
  The manifest is a nested \<^verbatim>\<open>dict\<close> written and read with the \<^verbatim>\<open>json\<close> module. A
  dictionary is an association list in insertion order, as \<^verbatim>\<open>json.dump\<close> writes it.
  JSON numbers are integers here; floats and booleans do not occur in a manifest.
\<close>

datatype pyval =
    PyNone
  | PyInt int
  | PyStr string
  | PyList "pyval list"
  | PyDict "(string \<times> pyval) list"

datatype exn =
    KeyError | TypeError | ValueError | ZeroDivisionError | OSError | AttributeError | MemoryError

text \<open>
  A record of the root logger: the level and the message. Where the source formats an
  exception or a duration into the message, the model keeps the text before it.
\<close>

datatype level = INFO | WARNING | ERROR

type_synonym event = "level \<times> string"

text \<open>\<^verbatim>\<open>d[key]\<close> for a string key.\<close>

fun getitem :: "pyval \<Rightarrow> string \<Rightarrow> exn + pyval" where
  "getitem (PyDict kvs) k = (case map_of kvs k of None \<Rightarrow> Inl KeyError | Some v \<Rightarrow> Inr v)"
| "getitem PyNone k = Inl TypeError"
| "getitem (PyInt n) k = Inl TypeError"
| "getitem (PyStr s) k = Inl TypeError"
| "getitem (PyList xs) k = Inl TypeError"

text \<open>\<^verbatim>\<open>str(n)\<close> for a non-negative integer.\<close>

definition digit :: "nat \<Rightarrow> char" where
  "digit n = ''0123456789'' ! n"

function str_nat :: "nat \<Rightarrow> string" where
  "str_nat n = (if n < 10 then [digit n] else str_nat (n div 10) @ [digit (n mod 10)])"
  by pat_completeness auto
termination
  by (relation "measure id") auto

declare str_nat.simps [simp del]

definition str_int :: "int \<Rightarrow> string" where
  "str_int n = (if n < 0 then ''-'' @ str_nat (nat (- n)) else str_nat (nat n))"

text \<open>\<^verbatim>\<open>os.path.basename\<close> and \<^verbatim>\<open>os.path.join\<close> (POSIX) on two components.\<close>

definition basename :: "string \<Rightarrow> string" where
  "basename p = rev (takeWhile (\<lambda>c. c \<noteq> CHR ''/'') (rev p))"

definition path_join :: "string \<Rightarrow> string \<Rightarrow> string" where
  "path_join a b =
     (if b \<noteq> [] \<and> hd b = CHR ''/'' then b
      else if a = [] \<or> last a = CHR ''/'' then a @ b
      else a @ ''/'' @ b)"

text \<open>
  A loop whose body may raise: the first exception ends the loop and is the result.
\<close>

fun foldM :: "('s \<Rightarrow> 'a \<Rightarrow> exn + 's) \<Rightarrow> 's \<Rightarrow> 'a list \<Rightarrow> exn + 's" where
  "foldM f s [] = Inr s"
| "foldM f s (x # xs) = (case f s x of Inl e \<Rightarrow> Inl e | Inr s' \<Rightarrow> foldM f s' xs)"

section \<open>Double-precision arithmetic\<close>

text \<open>
  NumPy divides and multiplies the tile in \<^verbatim>\<open>float64\<close>. A finite double is the rational
  it denotes; \<open>fl64\<close> rounds a rational to the nearest double with 53 significant bits,
  ties to even. The exponent range of a double is not modelled: the values of this
  program lie between \<open>2 powi -16\<close> and \<open>2 powi 16\<close>, or are zero.
\<close>

definition ilog2 :: "rat \<Rightarrow> int" where
  "ilog2 x =
     (let (p, q) = quotient_of x;
          e = bitlen p - bitlen q
      in if 2 powi e \<le> x then e else e - 1)"

definition round_half_even :: "rat \<Rightarrow> int" where
  "round_half_even x =
     (let n = \<lfloor>x\<rfloor>; r = x - of_int n
      in if r < 1 / 2 then n else if 1 / 2 < r then n + 1 else if even n then n else n + 1)"

definition fl64 :: "rat \<Rightarrow> rat" where
  "fl64 x =
     (if x = 0 then 0
      else let e = ilog2 \<bar>x\<bar>
           in of_int (round_half_even (x * 2 powi (52 - e))) * 2 powi (e - 52))"

text \<open>\<^verbatim>\<open>astype(np.uint16)\<close> on a double: the C cast, which drops the fraction.\<close>

definition astype_uint16 :: "rat \<Rightarrow> 16 word" where
  "astype_uint16 x = word_of_int (if x < 0 then - \<lfloor>- x\<rfloor> else \<lfloor>x\<rfloor>)"

section \<open>Arrays\<close>

text \<open>
  A NumPy array of unsigned 16-bit samples: its shape and its element at an index
  vector. The specification's rasters and tiles are unsigned with at most 16 bits, and
  \<^verbatim>\<open>normalized_tile\<close> and the canvas are \<^verbatim>\<open>uint16\<close> in the source.
\<close>

record ndarray =
  shape :: "nat list"
  elem :: "nat list \<Rightarrow> 16 word"

text \<open>The elements of a 2-D array in C order (row by row).\<close>

definition elems :: "ndarray \<Rightarrow> 16 word list" where
  "elems a = concat (map (\<lambda>y. map (\<lambda>x. elem a [y, x]) [0..<shape a ! 1]) [0..<shape a ! 0])"

text \<open>
  A slice bound on an axis of length \<open>n\<close>: a negative bound counts from the end, and the
  result is clamped to the axis.
\<close>

definition slice_index :: "nat \<Rightarrow> int \<Rightarrow> nat" where
  "slice_index n i = (if i < 0 then nat (max 0 (int n + i)) else min n (nat i))"

text \<open>\<^verbatim>\<open>a[y0:y1, x0:x1]\<close> on a 2-D array.\<close>

definition slice2 :: "ndarray \<Rightarrow> int \<Rightarrow> int \<Rightarrow> int \<Rightarrow> int \<Rightarrow> ndarray" where
  "slice2 a y0 y1 x0 x1 =
     (let ys = slice_index (shape a ! 0) y0; ye = slice_index (shape a ! 0) y1;
          xs = slice_index (shape a ! 1) x0; xe = slice_index (shape a ! 1) x1
      in \<lparr>shape = [ye - ys, xe - xs],
          elem = (\<lambda>idx. case idx of [y, x] \<Rightarrow> elem a [ys + y, xs + x] | _ \<Rightarrow> 0)\<rparr>)"

text \<open>\<^verbatim>\<open>np.zeros((h, w), dtype=np.uint16)\<close>.\<close>

definition zeros :: "nat \<Rightarrow> nat \<Rightarrow> ndarray" where
  "zeros h w = \<lparr>shape = [h, w], elem = (\<lambda>idx. 0)\<rparr>"

text \<open>\<^verbatim>\<open>tobytes()\<close> of a \<^verbatim>\<open>uint16\<close> array: two bytes per sample, low byte first.\<close>

definition le_bytes :: "16 word \<Rightarrow> byte list" where
  "le_bytes v = [ucast v, ucast (drop_bit 8 v)]"

definition tobytes :: "ndarray \<Rightarrow> byte list" where
  "tobytes a = concat (map le_bytes (elems a))"

section \<open>Tile splitter (tileMaker.py)\<close>

text \<open>
  \<^verbatim>\<open>
  def calculate_hash(image):
      hash_obj = hashlib.sha256(image.tobytes())
      return hash_obj.hexdigest()
  \<close>
\<close>

definition calculate_hash :: "sha256 \<Rightarrow> ndarray \<Rightarrow> string" where
  "calculate_hash sha img = sha (tobytes img)"

text \<open>
  \<^verbatim>\<open>((tile - tile_min) / (tile_max - tile_min) * 65535).astype(np.uint16)\<close> on one
  sample: the subtractions are \<^verbatim>\<open>uint16\<close>, the quotient and the product are doubles.
\<close>

definition normalize_sample :: "16 word \<Rightarrow> 16 word \<Rightarrow> 16 word \<Rightarrow> 16 word" where
  "normalize_sample v tile_min tile_max =
     astype_uint16
       (fl64 (fl64 (of_nat (unat (v - tile_min)) / of_nat (unat (tile_max - tile_min))) * 65535))"

definition normalize :: "ndarray \<Rightarrow> 16 word \<Rightarrow> 16 word \<Rightarrow> ndarray" where
  "normalize tile tile_min tile_max =
     \<lparr>shape = shape tile, elem = (\<lambda>idx. normalize_sample (elem tile idx) tile_min tile_max)\<rparr>"

text \<open>
  A call of \<^verbatim>\<open>cv2.imwrite\<close> has three outcomes: it writes the file and returns
  \<^verbatim>\<open>True\<close>; it writes nothing and returns \<^verbatim>\<open>False\<close> (a directory that is missing or
  not writable, an extension without an encoder); or it raises. The source never looks
  at the returned value, so after \<^verbatim>\<open>False\<close> it goes on as after a success, with no file
  on disk.
\<close>

datatype write_result = Written | ReturnsFalse | WriteRaises

text \<open>
  What the run meets outside the program: whether \<^verbatim>\<open>os.makedirs\<close> raises, what
  \<^verbatim>\<open>fits.open(...)[0].data\<close> gives, what \<^verbatim>\<open>cv2.imwrite\<close> does for each path, and
  whether writing the JSON file (\<^verbatim>\<open>open\<close> and \<^verbatim>\<open>json.dump\<close>) raises.
\<close>

datatype hdu = OpenRaises | NoData | Data ndarray

record world =
  makedirs_raises :: bool
  primary_hdu :: hdu
  imwrite :: "string \<Rightarrow> write_result"
  dump_raises :: bool

text \<open>
  What the run leaves behind: the log, the tile images written (path and pixels, in
  order), and the JSON file written (path and content), if any.
\<close>

record outcome =
  events :: "event list"
  tile_files :: "(string \<times> ndarray) list"
  json_file :: "(string \<times> pyval) option"

record progress =
  p_log :: "event list"
  p_files :: "(string \<times> ndarray) list"
  p_tiles :: "pyval list"

definition tile_id_of :: "string \<Rightarrow> nat \<Rightarrow> nat \<Rightarrow> string" where
  "tile_id_of fits_file i j = basename fits_file @ ''_tile_'' @ str_nat i @ ''_'' @ str_nat j"

definition uniform_warning :: "nat \<Rightarrow> nat \<Rightarrow> event" where
  "uniform_warning i j =
     (WARNING, ''Tile ('' @ str_nat i @ '', '' @ str_nat j @ '') has uniform value'')"

text \<open>
  \<^verbatim>\<open>tile = image_data[i * tile_size:(i + 1) * tile_size, j * tile_size:(j + 1) * tile_size]\<close>
\<close>

definition tile_at :: "ndarray \<Rightarrow> int \<Rightarrow> nat \<Rightarrow> nat \<Rightarrow> ndarray" where
  "tile_at image_data tile_size i j =
     slice2 image_data (int i * tile_size) ((int i + 1) * tile_size)
                       (int j * tile_size) ((int j + 1) * tile_size)"

text \<open>\<^verbatim>\<open>tile_min = np.min(tile)\<close>, \<^verbatim>\<open>tile_max = np.max(tile)\<close>, on a non-empty tile.\<close>

definition tile_min :: "ndarray \<Rightarrow> 16 word" where
  "tile_min tile = Min (set (elems tile))"

definition tile_max :: "ndarray \<Rightarrow> 16 word" where
  "tile_max tile = Max (set (elems tile))"

text \<open>The test \<^verbatim>\<open>tile_max == tile_min\<close>: the tile has a uniform value.\<close>

definition degenerate :: "ndarray \<Rightarrow> bool" where
  "degenerate tile \<longleftrightarrow> tile_max tile = tile_min tile"

text \<open>
  \<^verbatim>\<open>
  if tile_max == tile_min:
      normalized_tile = np.zeros((tile_size, tile_size), dtype=np.uint16)
  else:
      normalized_tile = ((tile - tile_min) / (tile_max - tile_min) * 65535).astype(np.uint16)
  \<close>
\<close>

definition normalized_tile :: "int \<Rightarrow> ndarray \<Rightarrow> ndarray" where
  "normalized_tile tile_size tile =
     (if degenerate tile then zeros (nat tile_size) (nat tile_size)
      else normalize tile (tile_min tile) (tile_max tile))"

text \<open>The dictionary \<^verbatim>\<open>tile_metadata\<close> of the cell \<open>(i, j)\<close>.\<close>

definition tile_filename_of :: "string \<Rightarrow> string \<Rightarrow> nat \<Rightarrow> nat \<Rightarrow> string" where
  "tile_filename_of fits_file output_dir i j =
     path_join output_dir (tile_id_of fits_file i j @ ''.png'')"

definition tile_metadata :: "string \<Rightarrow> string \<Rightarrow> int \<Rightarrow> nat \<Rightarrow> nat \<Rightarrow> string \<Rightarrow> pyval" where
  "tile_metadata fits_file output_dir tile_size i j tile_hash =
     PyDict
       [(''tile_id'', PyStr (tile_id_of fits_file i j)),
        (''filename'', PyStr (basename (tile_filename_of fits_file output_dir i j))),
        (''hash'', PyStr tile_hash),
        (''position'', PyDict
           [(''x_start'', PyInt (int j * tile_size)),
            (''y_start'', PyInt (int i * tile_size)),
            (''x_end'', PyInt ((int j + 1) * tile_size)),
            (''y_end'', PyInt ((int i + 1) * tile_size))])]"

text \<open>
  What the body of the inner loop of \<^verbatim>\<open>fits_to_tiles\<close> does for the cell \<open>(i, j)\<close> when
  nothing leaves the loop: the events it logs (the warning, and the error of a
  \<^verbatim>\<open>cv2.imwrite\<close> that raises), the tile file on disk if \<^verbatim>\<open>cv2.imwrite\<close> wrote it, and the
  tile record it appends in every case.
\<close>

definition cell_result ::
  "sha256 \<Rightarrow> world \<Rightarrow> string \<Rightarrow> string \<Rightarrow> int \<Rightarrow> ndarray \<Rightarrow> nat \<Rightarrow> nat
    \<Rightarrow> event list \<times> (string \<times> ndarray) list \<times> pyval" where
  "cell_result sha w fits_file output_dir tile_size image_data i j =
     (let tile = tile_at image_data tile_size i j;
          normalized = normalized_tile tile_size tile;
          tile_hash = calculate_hash sha normalized;
          tile_filename = tile_filename_of fits_file output_dir i j
      in ((if degenerate tile then [uniform_warning i j] else []) @
          (if imwrite w tile_filename = WriteRaises
           then [(ERROR, ''Error saving tile image '' @ tile_filename)] else []),
          (if imwrite w tile_filename = Written then [(tile_filename, normalized)] else []),
          tile_metadata fits_file output_dir tile_size i j tile_hash))"

text \<open>
  The body itself: \<^verbatim>\<open>np.min\<close> raises \<^verbatim>\<open>ValueError\<close> on an empty tile, and
  \<^verbatim>\<open>np.zeros\<close> on a negative size.
\<close>

definition process_tile ::
  "sha256 \<Rightarrow> world \<Rightarrow> string \<Rightarrow> string \<Rightarrow> int \<Rightarrow> ndarray \<Rightarrow> nat \<Rightarrow> nat
    \<Rightarrow> exn + (event list \<times> (string \<times> ndarray) list \<times> pyval)" where
  "process_tile sha w fits_file output_dir tile_size image_data i j =
     (let tile = tile_at image_data tile_size i j
      in if elems tile = [] then Inl ValueError
         else if degenerate tile \<and> tile_size < 0 then Inl ValueError
         else Inr (cell_result sha w fits_file output_dir tile_size image_data i j))"

definition tile_step ::
  "sha256 \<Rightarrow> world \<Rightarrow> string \<Rightarrow> string \<Rightarrow> int \<Rightarrow> ndarray \<Rightarrow> nat \<Rightarrow> progress \<Rightarrow> nat
    \<Rightarrow> exn + progress" where
  "tile_step sha w fits_file output_dir tile_size image_data i st j =
     (case process_tile sha w fits_file output_dir tile_size image_data i j of
        Inl e \<Rightarrow> Inl e
      | Inr (evs, fs, record) \<Rightarrow>
          Inr (st\<lparr>p_log := p_log st @ evs, p_files := p_files st @ fs,
                  p_tiles := p_tiles st @ [record]\<rparr>))"

definition failed :: "string \<Rightarrow> outcome" where
  "failed msg = \<lparr>events = [(ERROR, msg)], tile_files = [], json_file = None\<rparr>"

text \<open>
  \<^verbatim>\<open>fits_to_tiles(fits_file, output_dir, tile_size)\<close>. \<open>Inl\<close> is an exception that leaves
  the function; \<open>Inr\<close> is a return. \<^verbatim>\<open>range(n)\<close> is \<open>[0..<nat n]\<close>, empty for \<open>n \<le> 0\<close>.
  \<^verbatim>\<open>width // tile_size\<close> and \<^verbatim>\<open>elapsed_time / total_tiles\<close> raise on a zero divisor.
\<close>

definition fits_to_tiles :: "sha256 \<Rightarrow> world \<Rightarrow> string \<Rightarrow> string \<Rightarrow> int \<Rightarrow> exn + outcome" where
  "fits_to_tiles sha w fits_file output_dir tile_size =
     (if makedirs_raises w then Inl OSError
      else case primary_hdu w of
        OpenRaises \<Rightarrow> Inr (failed ''Error opening FITS file'')
      | NoData \<Rightarrow> Inr (failed (''No image data found in FITS file: '' @ fits_file))
      | Data image_data \<Rightarrow>
          if length (shape image_data) \<noteq> 2
          then Inr (failed ''Error: FITS file does not contain 2D image data'')
          else
            let height = int (shape image_data ! 0);
                width = int (shape image_data ! 1)
            in if tile_size = 0 then Inl ZeroDivisionError
               else
                 let num_tiles_x = width div tile_size;
                     num_tiles_y = height div tile_size;
                     total_tiles = num_tiles_x * num_tiles_y
                 in case foldM
                      (\<lambda>st i. foldM (tile_step sha w fits_file output_dir tile_size image_data i)
                                 st [0..<nat num_tiles_x])
                      \<lparr>p_log = [], p_files = [], p_tiles = []\<rparr> [0..<nat num_tiles_y] of
                      Inl e \<Rightarrow> Inl e
                    | Inr st \<Rightarrow>
                        if total_tiles = 0 then Inl ZeroDivisionError
                        else
                          let metadata = PyDict
                                [(''fits_file'', PyStr (basename fits_file)),
                                 (''tile_size'', PyInt tile_size),
                                 (''tiles'', PyList (p_tiles st))];
                              json_path =
                                path_join output_dir (basename fits_file @ ''_metadata.json'')
                          in Inr
                              \<lparr>events = p_log st @
                                 [(INFO, ''Completed processing '' @ str_int total_tiles @ '' tiles'')] @
                                 [if dump_raises w
                                  then (ERROR, ''Error saving metadata to JSON file'')
                                  else (INFO, ''Metadata saved to '' @ json_path)],
                               tile_files = p_files st,
                               json_file =
                                 (if dump_raises w then None else Some (json_path, metadata))\<rparr>)"

text \<open>The grid cells \<open>(i, j)\<close> in the order the two loops visit them.\<close>

definition cells :: "nat \<Rightarrow> nat \<Rightarrow> (nat \<times> nat) list" where
  "cells rows cols = concat (map (\<lambda>i. map (\<lambda>j. (i, j)) [0..<cols]) [0..<rows])"

text \<open>The loop state after the cells with the results \<open>rs\<close> have been appended.\<close>

definition add_cells ::
  "progress \<Rightarrow> (event list \<times> (string \<times> ndarray) list \<times> pyval) list \<Rightarrow> progress" where
  "add_cells st rs =
     st\<lparr>p_log := p_log st @ concat (map fst rs),
        p_files := p_files st @ concat (map (fst \<circ> snd) rs),
        p_tiles := p_tiles st @ map (snd \<circ> snd) rs\<rparr>"

text \<open>The results of all cells of the grid of a 2-D raster, for a positive tile size.\<close>

definition grid_results ::
  "sha256 \<Rightarrow> world \<Rightarrow> string \<Rightarrow> string \<Rightarrow> int \<Rightarrow> ndarray
    \<Rightarrow> (event list \<times> (string \<times> ndarray) list \<times> pyval) list" where
  "grid_results sha w f d T a =
     map (\<lambda>(i, j). cell_result sha w f d T a i j)
       (cells (shape a ! 0 div nat T) (shape a ! 1 div nat T))"

text \<open>
  What a run leaves behind when every cell of the grid is processed and the grid is not
  empty.
\<close>

definition grid_outcome ::
  "sha256 \<Rightarrow> world \<Rightarrow> string \<Rightarrow> string \<Rightarrow> int \<Rightarrow> ndarray \<Rightarrow> outcome" where
  "grid_outcome sha w f d T a =
     \<lparr>events = concat (map fst (grid_results sha w f d T a)) @
        [(INFO, ''Completed processing '' @
            str_int (int (shape a ! 1) div T * (int (shape a ! 0) div T)) @ '' tiles'')] @
        [if dump_raises w then (ERROR, ''Error saving metadata to JSON file'')
         else (INFO, ''Metadata saved to '' @ path_join d (basename f @ ''_metadata.json''))],
      tile_files = concat (map (fst \<circ> snd) (grid_results sha w f d T a)),
      json_file =
        (if dump_raises w then None
         else Some (path_join d (basename f @ ''_metadata.json''),
                PyDict [(''fits_file'', PyStr (basename f)), (''tile_size'', PyInt T),
                        (''tiles'', PyList (map (snd \<circ> snd) (grid_results sha w f d T a)))]))\<rparr>"

section \<open>Duplicate detector (tileMaker.py)\<close>

text \<open>
  \<^verbatim>\<open>os.walk(metadata_dir)\<close> yields directories with their file names, in an order the
  file system decides; the listing is that sequence, each file with what
  \<^verbatim>\<open>json.load\<close> gives for it (\<open>None\<close> when opening or parsing raises).
\<close>

type_synonym listing = "(string \<times> (string \<times> pyval option) list) list"

text \<open>\<^verbatim>\<open>str.lower()\<close> on the code points 0 to 255, and \<^verbatim>\<open>str.endswith\<close>.\<close>

definition lower_char :: "char \<Rightarrow> char" where
  "lower_char c =
     (let n = (of_char c :: nat)
      in if (65 \<le> n \<and> n \<le> 90) \<or> (192 \<le> n \<and> n \<le> 222 \<and> n \<noteq> 215) then char_of (n + 32)
         else c)"

definition lower :: "string \<Rightarrow> string" where
  "lower s = map lower_char s"

definition endswith :: "string \<Rightarrow> string \<Rightarrow> bool" where
  "endswith s suffix \<longleftrightarrow>
     length suffix \<le> length s \<and> drop (length s - length suffix) s = suffix"

text \<open>The metadata files of the walk, in order, with their full paths.\<close>

definition discovered :: "listing \<Rightarrow> (string \<times> pyval option) list" where
  "discovered walk =
     concat (map (\<lambda>(subdir, files).
        map (\<lambda>(file, content). (path_join subdir file, content))
          (filter (\<lambda>(file, content). endswith (lower file) ''_metadata.json'') files)) walk)"

text \<open>
  \<^verbatim>\<open>metadata.get("tiles", [])\<close>: only a dictionary has \<^verbatim>\<open>get\<close>. Then the \<^verbatim>\<open>for\<close> loop
  iterates the value: a list gives its elements, a dictionary its keys, a string its
  characters; the other values are not iterable.
\<close>

fun get_tiles :: "pyval \<Rightarrow> exn + pyval" where
  "get_tiles (PyDict kvs) = Inr (case map_of kvs ''tiles'' of None \<Rightarrow> PyList [] | Some v \<Rightarrow> v)"
| "get_tiles PyNone = Inl AttributeError"
| "get_tiles (PyInt n) = Inl AttributeError"
| "get_tiles (PyStr s) = Inl AttributeError"
| "get_tiles (PyList xs) = Inl AttributeError"

fun iter_items :: "pyval \<Rightarrow> exn + pyval list" where
  "iter_items (PyList xs) = Inr xs"
| "iter_items (PyDict kvs) = Inr (map (\<lambda>(k, v). PyStr k) kvs)"
| "iter_items (PyStr s) = Inr (map (\<lambda>c. PyStr [c]) s)"
| "iter_items PyNone = Inl TypeError"
| "iter_items (PyInt n) = Inl TypeError"

text \<open>A dictionary key must be hashable: lists and dictionaries are not.\<close>

fun hashable :: "pyval \<Rightarrow> bool" where
  "hashable (PyList xs) = False"
| "hashable (PyDict kvs) = False"
| "hashable PyNone = True"
| "hashable (PyInt n) = True"
| "hashable (PyStr s) = True"

text \<open>
  The state of the scan: \<^verbatim>\<open>hash_dict\<close> (for each hash the tile id and file name stored
  with it), the list \<^verbatim>\<open>duplicates\<close> and the errors logged.
\<close>

record scan =
  hash_dict :: "pyval \<rightharpoonup> pyval \<times> pyval"
  duplicates :: "(pyval \<times> pyval \<times> pyval \<times> pyval) list"
  scan_errors :: "event list"

text \<open>
  The body of the loop over the tiles of one manifest:
  \<^verbatim>\<open>
  tile_hash = tile["hash"]
  tile_id = tile["tile_id"]
  if tile_hash in hash_dict:
      duplicates.append((tile_id, tile["filename"], hash_dict[tile_hash]["tile_id"],
                         hash_dict[tile_hash]["filename"]))
  else:
      hash_dict[tile_hash] = {"tile_id": tile_id, "filename": tile["filename"]}
  \<close>
\<close>

definition scan_tile :: "scan \<Rightarrow> pyval \<Rightarrow> exn + scan" where
  "scan_tile st tile =
     (case getitem tile ''hash'' of
        Inl e \<Rightarrow> Inl e
      | Inr tile_hash \<Rightarrow>
          (case getitem tile ''tile_id'' of
             Inl e \<Rightarrow> Inl e
           | Inr tile_id \<Rightarrow>
               if \<not> hashable tile_hash then Inl TypeError
               else
                 (case hash_dict st tile_hash of
                    Some (first_id, first_filename) \<Rightarrow>
                      (case getitem tile ''filename'' of
                         Inl e \<Rightarrow> Inl e
                       | Inr filename \<Rightarrow>
                           Inr (st\<lparr>duplicates := duplicates st @
                                   [(tile_id, filename, first_id, first_filename)]\<rparr>))
                  | None \<Rightarrow>
                      (case getitem tile ''filename'' of
                         Inl e \<Rightarrow> Inl e
                       | Inr filename \<Rightarrow>
                           Inr (st\<lparr>hash_dict := (hash_dict st)(tile_hash \<mapsto> (tile_id, filename))\<rparr>)))))"

text \<open>
  The loop over the tiles: an exception ends it, and what the earlier tiles stored
  stays stored.
\<close>

fun scan_tiles :: "scan \<Rightarrow> pyval list \<Rightarrow> scan \<times> exn option" where
  "scan_tiles st [] = (st, None)"
| "scan_tiles st (tile # tiles) =
     (case scan_tile st tile of
        Inl e \<Rightarrow> (st, Some e)
      | Inr st' \<Rightarrow> scan_tiles st' tiles)"

definition read_error :: "string \<Rightarrow> event" where
  "read_error file_path = (ERROR, ''Error reading metadata file '' @ file_path)"

text \<open>
  One metadata file: the \<^verbatim>\<open>try\<close> block around opening, loading and scanning it; every
  exception is logged and the walk goes on.
\<close>

definition scan_file :: "scan \<Rightarrow> string \<times> pyval option \<Rightarrow> scan" where
  "scan_file st entry =
     (case entry of
        (file_path, None) \<Rightarrow> st\<lparr>scan_errors := scan_errors st @ [read_error file_path]\<rparr>
      | (file_path, Some metadata) \<Rightarrow>
          (case get_tiles metadata of
             Inl e \<Rightarrow> st\<lparr>scan_errors := scan_errors st @ [read_error file_path]\<rparr>
           | Inr v \<Rightarrow>
               (case iter_items v of
                  Inl e \<Rightarrow> st\<lparr>scan_errors := scan_errors st @ [read_error file_path]\<rparr>
                | Inr tiles \<Rightarrow>
                    (case scan_tiles st tiles of
                       (st', None) \<Rightarrow> st'
                     | (st', Some e) \<Rightarrow>
                         st'\<lparr>scan_errors := scan_errors st' @ [read_error file_path]\<rparr>))))"

text \<open>
  \<^verbatim>\<open>find_duplicates(metadata_dir)\<close>. The function logs the list \<^verbatim>\<open>duplicates\<close> and returns
  nothing; the model gives the final state, whose \<open>duplicates\<close> is that list.
\<close>

definition find_duplicates :: "listing \<Rightarrow> scan" where
  "find_duplicates walk =
     foldl scan_file \<lparr>hash_dict = Map.empty, duplicates = [], scan_errors = []\<rparr> (discovered walk)"

text \<open>
  The state before the first file, and the effect of the loop body on a tile record whose
  three fields \<open>(hash, tile_id, filename)\<close> could be read.
\<close>

definition scan_start :: scan where
  "scan_start = \<lparr>hash_dict = Map.empty, duplicates = [], scan_errors = []\<rparr>"

definition record_step :: "scan \<Rightarrow> pyval \<times> pyval \<times> pyval \<Rightarrow> scan" where
  "record_step st r =
     (case hash_dict st (fst r) of
        Some (first_id, first_filename) \<Rightarrow>
          st\<lparr>duplicates := duplicates st @
               [(fst (snd r), snd (snd r), first_id, first_filename)]\<rparr>
      | None \<Rightarrow> st\<lparr>hash_dict := (hash_dict st)(fst r \<mapsto> snd r)\<rparr>)"

section \<open>The duplicate pairs of the specification\<close>

text \<open>
  A tile record the scan can process has the three fields, with a hashable hash.
\<close>

definition tile_fields :: "pyval \<Rightarrow> (pyval \<times> pyval \<times> pyval) option" where
  "tile_fields tile =
     (case (getitem tile ''hash'', getitem tile ''tile_id'', getitem tile ''filename'') of
        (Inr h, Inr i, Inr f) \<Rightarrow> if hashable h then Some (h, i, f) else None
      | _ \<Rightarrow> None)"

text \<open>
  The records \<open>(hash, tile_id, filename)\<close> the scan sees, in the order it sees them: of
  each readable manifest, the tile records up to the first one it cannot process.
\<close>

definition records_of :: "pyval option \<Rightarrow> (pyval \<times> pyval \<times> pyval) list" where
  "records_of content =
     (case content of
        None \<Rightarrow> []
      | Some metadata \<Rightarrow>
          (case get_tiles metadata of
             Inl e \<Rightarrow> []
           | Inr v \<Rightarrow>
               (case iter_items v of
                  Inl e \<Rightarrow> []
                | Inr tiles \<Rightarrow>
                    List.map_filter tile_fields (takeWhile (\<lambda>t. tile_fields t \<noteq> None) tiles))))"

definition seen_records :: "listing \<Rightarrow> (pyval \<times> pyval \<times> pyval) list" where
  "seen_records walk = concat (map (\<lambda>(file_path, content). records_of content) (discovered walk))"

text \<open>
  The specification's words: each later occurrence of a hash is reported exactly once,
  always relative to the first-seen occurrence. A later occurrence is a position whose
  hash occurs at an earlier position; the first-seen occurrence of a hash is the first
  record with it.
\<close>

definition later_occurrences :: "(pyval \<times> pyval \<times> pyval) list \<Rightarrow> nat list" where
  "later_occurrences rs = filter (\<lambda>k. \<exists>j<k. fst (rs ! j) = fst (rs ! k)) [0..<length rs]"

definition first_seen :: "(pyval \<times> pyval \<times> pyval) list \<Rightarrow> pyval \<Rightarrow> pyval \<times> pyval \<times> pyval" where
  "first_seen rs h = hd (filter (\<lambda>r. fst r = h) rs)"

definition duplicate_pair ::
  "(pyval \<times> pyval \<times> pyval) list \<Rightarrow> nat \<Rightarrow> pyval \<times> pyval \<times> pyval \<times> pyval" where
  "duplicate_pair rs k =
     (fst (snd (rs ! k)), snd (snd (rs ! k)),
      fst (snd (first_seen rs (fst (rs ! k)))), snd (snd (first_seen rs (fst (rs ! k)))))"

definition expected_pairs ::
  "(pyval \<times> pyval \<times> pyval) list \<Rightarrow> (pyval \<times> pyval \<times> pyval \<times> pyval) list" where
  "expected_pairs rs = map (duplicate_pair rs) (later_occurrences rs)"

text \<open>
  The hash recorded for a grid cell of a raster, and the three fields the scan reads from
  the record of that cell.
\<close>

definition cell_hash :: "sha256 \<Rightarrow> int \<Rightarrow> ndarray \<Rightarrow> nat \<times> nat \<Rightarrow> string" where
  "cell_hash sha T a c = calculate_hash sha (normalized_tile T (tile_at a T (fst c) (snd c)))"

definition cell_record ::
  "sha256 \<Rightarrow> string \<Rightarrow> string \<Rightarrow> int \<Rightarrow> ndarray \<Rightarrow> nat \<times> nat \<Rightarrow> pyval \<times> pyval \<times> pyval" where
  "cell_record sha f d T a c =
     (PyStr (cell_hash sha T a c), PyStr (tile_id_of f (fst c) (snd c)),
      PyStr (basename (tile_filename_of f d (fst c) (snd c))))"

section \<open>Image reconstructor (reconstruct.py)\<close>

text \<open>Sequencing of steps that may raise, and a list comprehension whose element may raise.\<close>

definition bind :: "exn + 'a \<Rightarrow> ('a \<Rightarrow> exn + 'b) \<Rightarrow> exn + 'b" where
  "bind r f = (case r of Inl e \<Rightarrow> Inl e | Inr v \<Rightarrow> f v)"

fun mapM :: "('a \<Rightarrow> exn + 'b) \<Rightarrow> 'a list \<Rightarrow> exn + 'b list" where
  "mapM f [] = Inr []"
| "mapM f (x # xs) = bind (f x) (\<lambda>y. bind (mapM f xs) (\<lambda>ys. Inr (y # ys)))"

text \<open>\<^verbatim>\<open>os.path.dirname\<close> (POSIX).\<close>

definition dirname :: "string \<Rightarrow> string" where
  "dirname p =
     (let head = take (length p - length (basename p)) p
      in if head \<noteq> [] \<and> (\<exists>c\<in>set head. c \<noteq> CHR ''/'')
         then rev (dropWhile (\<lambda>c. c = CHR ''/'') (rev head))
         else head)"

text \<open>
  A value used as a path component or as an array dimension must be a string or an
  integer; anything else raises \<^verbatim>\<open>TypeError\<close>.
\<close>

fun as_str :: "pyval \<Rightarrow> exn + string" where
  "as_str (PyStr s) = Inr s"
| "as_str PyNone = Inl TypeError"
| "as_str (PyInt n) = Inl TypeError"
| "as_str (PyList xs) = Inl TypeError"
| "as_str (PyDict kvs) = Inl TypeError"

fun as_int :: "pyval \<Rightarrow> exn + int" where
  "as_int (PyInt n) = Inr n"
| "as_int PyNone = Inl TypeError"
| "as_int (PyStr s) = Inl TypeError"
| "as_int (PyList xs) = Inl TypeError"
| "as_int (PyDict kvs) = Inl TypeError"

text \<open>\<^verbatim>\<open>tile["position"][key]\<close>.\<close>

definition position_of :: "pyval \<Rightarrow> string \<Rightarrow> exn + pyval" where
  "position_of tile key = bind (getitem tile ''position'') (\<lambda>p. getitem p key)"

text \<open>
  \<^verbatim>\<open>max(coords)\<close> followed by its use as a dimension of \<^verbatim>\<open>np.zeros\<close>: the empty list
  raises \<^verbatim>\<open>ValueError\<close>, and a list that is not all integers raises \<^verbatim>\<open>TypeError\<close>, in
  \<^verbatim>\<open>max\<close> or in \<^verbatim>\<open>np.zeros\<close>.
\<close>

definition py_max :: "pyval list \<Rightarrow> exn + int" where
  "py_max vs =
     (if vs = [] then Inl ValueError
      else bind (mapM as_int vs) (\<lambda>ns. Inr (Max (set ns))))"

text \<open>
  A bound of a slice on an axis of length \<open>n\<close>: an integer is clamped, \<^verbatim>\<open>None\<close> is the
  open end (0 for a start, \<open>n\<close> for a stop), any other value raises \<^verbatim>\<open>TypeError\<close>.
\<close>

fun slice_bound :: "nat \<Rightarrow> nat \<Rightarrow> pyval \<Rightarrow> exn + nat" where
  "slice_bound n open_end (PyInt i) = Inr (slice_index n i)"
| "slice_bound n open_end PyNone = Inr open_end"
| "slice_bound n open_end (PyStr s) = Inl TypeError"
| "slice_bound n open_end (PyList xs) = Inl TypeError"
| "slice_bound n open_end (PyDict kvs) = Inl TypeError"

text \<open>
  NumPy's rule for \<^verbatim>\<open>target[...] = value\<close> with a target of shape \<open>(r, c)\<close>: leading
  dimensions of the value beyond two must be 1, and each remaining dimension must be the
  target's or 1, in which case the value is repeated along it. \<open>broadcast_index\<close> is the
  index of the value that lands on the target's \<open>(y, x)\<close>.
\<close>

definition broadcastable :: "nat list \<Rightarrow> nat \<Rightarrow> nat \<Rightarrow> bool" where
  "broadcastable s r c =
     (let n = length s
      in if n = 0 then True
         else if n = 1 then s ! 0 = 1 \<or> s ! 0 = c
         else (\<forall>k<n - 2. s ! k = 1) \<and> (s ! (n - 2) = 1 \<or> s ! (n - 2) = r)
              \<and> (s ! (n - 1) = 1 \<or> s ! (n - 1) = c))"

definition broadcast_index :: "nat list \<Rightarrow> nat \<Rightarrow> nat \<Rightarrow> nat list" where
  "broadcast_index s y x =
     (let n = length s
      in if n = 0 then []
         else if n = 1 then [if s ! 0 = 1 then 0 else x]
         else replicate (n - 2) 0 @
              [if s ! (n - 2) = 1 then 0 else y, if s ! (n - 1) = 1 then 0 else x])"

text \<open>
  \<^verbatim>\<open>full_image[y_start:y_end, x_start:x_end] = tile_image\<close>: the new canvas, or the
  exception of a bad slice bound or of shapes that cannot be broadcast.
\<close>

definition assign_region ::
  "ndarray \<Rightarrow> pyval \<Rightarrow> pyval \<Rightarrow> pyval \<Rightarrow> pyval \<Rightarrow> ndarray \<Rightarrow> exn + ndarray" where
  "assign_region full_image y_start y_end x_start x_end tile_image =
     (let h = shape full_image ! 0; w = shape full_image ! 1
      in bind (slice_bound h 0 y_start) (\<lambda>ys.
         bind (slice_bound h h y_end) (\<lambda>ye.
         bind (slice_bound w 0 x_start) (\<lambda>xs.
         bind (slice_bound w w x_end) (\<lambda>xe.
           if broadcastable (shape tile_image) (ye - ys) (xe - xs)
           then Inr (full_image\<lparr>elem := (\<lambda>idx.
                  case idx of
                    [y, x] \<Rightarrow>
                      if ys \<le> y \<and> y < ye \<and> xs \<le> x \<and> x < xe
                      then elem tile_image (broadcast_index (shape tile_image) (y - ys) (x - xs))
                      else elem full_image idx
                  | _ \<Rightarrow> elem full_image idx)\<rparr>)
           else Inl ValueError)))))"

text \<open>
  What the reconstruction meets outside the program: what \<^verbatim>\<open>json.load\<close> gives for the
  metadata file (\<open>None\<close> when it raises), what \<^verbatim>\<open>cv2.imread\<close> gives for a path (\<open>None\<close>
  when the file cannot be read), for which sizes the memory is too short to allocate
  the canvas, and what the final \<^verbatim>\<open>cv2.imwrite\<close> does.
\<close>

record store =
  load_json :: "pyval option"
  imread :: "string \<Rightarrow> ndarray option"
  memory_short :: "nat \<Rightarrow> nat \<Rightarrow> bool"
  save_result :: write_result

text \<open>
  \<^verbatim>\<open>np.zeros((height, width), dtype=np.uint16)\<close> on two Python integers, on a 64-bit
  platform: a negative dimension raises \<^verbatim>\<open>ValueError\<close>; so does a dimension, or a byte
  count \<open>2 * height * width\<close>, that does not fit a signed 64-bit integer; below that
  limit the allocation raises \<^verbatim>\<open>MemoryError\<close> when the memory is too short. The call is
  outside any \<^verbatim>\<open>try\<close> block.
\<close>

definition np_zeros :: "(nat \<Rightarrow> nat \<Rightarrow> bool) \<Rightarrow> int \<Rightarrow> int \<Rightarrow> exn + ndarray" where
  "np_zeros short height width =
     (if height < 0 \<or> width < 0 then Inl ValueError
      else if 2 ^ 63 \<le> height \<or> 2 ^ 63 \<le> width then Inl ValueError
      else if 2 ^ 63 \<le> 2 * height * width then Inl ValueError
      else if short (nat height) (nat width) then Inl MemoryError
      else Inr (zeros (nat height) (nat width)))"

text \<open>
  What it leaves behind: the log, the canvas at the end (\<open>None\<close> when the run returned
  before allocating it), and the path of the output file if \<^verbatim>\<open>cv2.imwrite\<close> wrote it.
\<close>

record reconstruction =
  r_events :: "event list"
  full_image :: "ndarray option"
  output_file :: "string option"

definition tile_error :: "string \<Rightarrow> event" where
  "tile_error tile_filename = (ERROR, ''Error reading tile image '' @ tile_filename)"

text \<open>
  The body of the loop of \<^verbatim>\<open>reconstruct_image_from_tiles\<close>: the file name and the four
  coordinates are read outside the \<^verbatim>\<open>try\<close> block, so a missing key ends the run; reading
  the tile and copying it are inside, so their exceptions are logged and the loop goes
  on with the canvas unchanged.
\<close>

definition place_tile ::
  "store \<Rightarrow> string \<Rightarrow> ndarray \<times> event list \<Rightarrow> pyval \<Rightarrow> exn + ndarray \<times> event list" where
  "place_tile env metadata_file st tile =
     bind (getitem tile ''filename'') (\<lambda>fv.
     bind (as_str fv) (\<lambda>fn.
       let tile_filename = path_join (dirname metadata_file) fn
       in bind (position_of tile ''x_start'') (\<lambda>x_start.
          bind (position_of tile ''y_start'') (\<lambda>y_start.
          bind (position_of tile ''x_end'') (\<lambda>x_end.
          bind (position_of tile ''y_end'') (\<lambda>y_end.
            case imread env tile_filename of
              None \<Rightarrow> Inr (fst st, snd st @ [tile_error tile_filename])
            | Some tile_image \<Rightarrow>
                (case assign_region (fst st) y_start y_end x_start x_end tile_image of
                   Inl e \<Rightarrow> Inr (fst st, snd st @ [tile_error tile_filename])
                 | Inr canvas \<Rightarrow> Inr (canvas, snd st))))))))"

text \<open>
  \<^verbatim>\<open>reconstruct_image_from_tiles(metadata_file, output_dir)\<close>. \<open>Inl\<close> is an exception that
  leaves the function.
\<close>

definition reconstruct_image_from_tiles ::
  "store \<Rightarrow> string \<Rightarrow> string \<Rightarrow> exn + reconstruction" where
  "reconstruct_image_from_tiles env metadata_file output_dir =
     (case load_json env of
        None \<Rightarrow>
          Inr \<lparr>r_events = [(ERROR, ''Error reading metadata file '' @ metadata_file)],
               full_image = None, output_file = None\<rparr>
      | Some metadata \<Rightarrow>
          bind (getitem metadata ''tile_size'') (\<lambda>tile_size.
          bind (getitem metadata ''tiles'') (\<lambda>tv.
          bind (iter_items tv) (\<lambda>tiles.
          bind (mapM (\<lambda>tile. position_of tile ''x_end'') tiles) (\<lambda>x_coords.
          bind (mapM (\<lambda>tile. position_of tile ''y_end'') tiles) (\<lambda>y_coords.
          bind (py_max x_coords) (\<lambda>width.
          bind (py_max y_coords) (\<lambda>height.
            bind (np_zeros (memory_short env) height width) (\<lambda>canvas.
            bind (foldM (place_tile env metadata_file) (canvas, []) tiles) (\<lambda>st.
            bind (getitem metadata ''fits_file'') (\<lambda>nv.
            bind (as_str nv) (\<lambda>name.
              let output_filename =
                    path_join output_dir (''reconstructed_'' @ basename name @ ''.png'')
              in Inr
                   \<lparr>r_events = snd st @
                      [if save_result env = WriteRaises
                       then (ERROR, ''Error saving reconstructed image '' @ output_filename)
                       else (INFO, ''Reconstructed image saved to '' @ output_filename)],
                    full_image = Some (fst st),
                    output_file =
                      (if save_result env = Written then Some output_filename
                       else None)\<rparr>))))))))))))"

section \<open>Well-formed tile records for the reconstruction\<close>

text \<open>
  A tile record the reconstruction can place has a file name and four integer
  coordinates.
\<close>

record placement =
  tile_file :: string
  x_start :: int
  y_start :: int
  x_end :: int
  y_end :: int

definition placement_of :: "pyval \<Rightarrow> placement option" where
  "placement_of tile =
     (case (getitem tile ''filename'', position_of tile ''x_start'', position_of tile ''y_start'',
            position_of tile ''x_end'', position_of tile ''y_end'') of
        (Inr (PyStr fn), Inr (PyInt xs), Inr (PyInt ys), Inr (PyInt xe), Inr (PyInt ye)) \<Rightarrow>
          Some \<lparr>tile_file = fn, x_start = xs, y_start = ys, x_end = xe, y_end = ye\<rparr>
      | _ \<Rightarrow> None)"











section \<open>The canvas a reconstruction is to produce\<close>







section \<open>Concrete inputs\<close>

text \<open>
  A world in which no library call raises and every file is written, holding the raster
  \<open>a\<close>.
\<close>

definition quiet_world :: "ndarray \<Rightarrow> world" where
  "quiet_world a =
     \<lparr>makedirs_raises = False, primary_hdu = Data a,
      imwrite = (\<lambda>p. Written), dump_raises = False\<rparr>"

text \<open>A raster of one row and two columns, with the samples 5 and 7.\<close>

definition two_constants :: ndarray where
  "two_constants = \<lparr>shape = [1, 2], elem = (\<lambda>idx. if idx = [0, 1] then 7 else 5)\<rparr>"

text \<open>A three-dimensional array.\<close>

definition data_cube :: ndarray where
  "data_cube = \<lparr>shape = [2, 2, 2], elem = (\<lambda>idx. 0)\<rparr>"

text \<open>A tile of two rows and two columns with the samples 0, 1, 4 and 4.\<close>

definition skew_tile :: ndarray where
  "skew_tile =
     \<lparr>shape = [2, 2],
      elem = (\<lambda>idx. if idx = [0, 0] then 0 else if idx = [0, 1] then 1 else 4)\<rparr>"

text \<open>
  A raster of two rows and four columns: the left half holds the sample 5 everywhere, the
  right half the samples 2, 3, 12 and 13.
\<close>

definition half_flat :: ndarray where
  "half_flat =
     \<lparr>shape = [2, 4],
      elem = (\<lambda>idx. case idx of [y, x] \<Rightarrow> if x < 2 then 5 else of_nat (10 * y + x) | _ \<Rightarrow> 0)\<rparr>"

section \<open>The specification's normalisation formula\<close>

text \<open>
  \<open>(v - min) / (max - min) \<times> 65535\<close> in exact arithmetic, before any rounding.
\<close>

definition exact_scaled :: "16 word \<Rightarrow> 16 word \<Rightarrow> 16 word \<Rightarrow> rat" where
  "exact_scaled v mn mx =
     (of_nat (unat v) - of_nat (unat mn)) / (of_nat (unat mx) - of_nat (unat mn)) * 65535"

section \<open>The shape of a manifest\<close>

text \<open>
  The manifest a run wrote, if it wrote one; the keys of a dictionary in order; and the
  shape of a position and of a tile record: the keys, their order and the types of the
  values.
\<close>

definition manifest_of :: "exn + outcome \<Rightarrow> pyval option" where
  "manifest_of r = (case r of Inl e \<Rightarrow> None | Inr out \<Rightarrow> map_option snd (json_file out))"

fun dict_keys :: "pyval \<Rightarrow> string list" where
  "dict_keys (PyDict kvs) = map fst kvs"
| "dict_keys _ = []"

definition is_position :: "pyval \<Rightarrow> bool" where
  "is_position p \<longleftrightarrow>
     (\<exists>xs ys xe ye. p = PyDict [(''x_start'', PyInt xs), (''y_start'', PyInt ys),
                                (''x_end'', PyInt xe), (''y_end'', PyInt ye)])"

definition is_tile_record :: "pyval \<Rightarrow> bool" where
  "is_tile_record t \<longleftrightarrow>
     (\<exists>tid fn h p. t = PyDict [(''tile_id'', PyStr tid), (''filename'', PyStr fn),
                              (''hash'', PyStr h), (''position'', p)] \<and> is_position p)"


text \<open>The manifest of the raster \<open>two_constants\<close> split with tile size 1.\<close>

definition example_manifest :: pyval where
  "example_manifest = PyDict
     [(''fits_file'', PyStr ''m31.fits''),
      (''tile_size'', PyInt 1),
      (''tiles'', PyList
         [PyDict [(''tile_id'', PyStr ''m31.fits_tile_0_0''),
                  (''filename'', PyStr ''m31.fits_tile_0_0.png''),
                  (''hash'', PyStr (toy_sha [0, 0])),
                  (''position'', PyDict [(''x_start'', PyInt 0), (''y_start'', PyInt 0),
                                         (''x_end'', PyInt 1), (''y_end'', PyInt 1)])],
          PyDict [(''tile_id'', PyStr ''m31.fits_tile_0_1''),
                  (''filename'', PyStr ''m31.fits_tile_0_1.png''),
                  (''hash'', PyStr (toy_sha [0, 0])),
                  (''position'', PyDict [(''x_start'', PyInt 1), (''y_start'', PyInt 0),
                                         (''x_end'', PyInt 2), (''y_end'', PyInt 1)])]])]"

text \<open>
  Two directory listings: one in which a hash occurs three times, in two manifests, and
  one in which all hashes differ.
\<close>

definition tile_entry :: "string \<Rightarrow> string \<Rightarrow> pyval" where
  "tile_entry tid h =
     PyDict [(''tile_id'', PyStr tid), (''filename'', PyStr (tid @ ''.png'')), (''hash'', PyStr h)]"

definition repeated_walk :: listing where
  "repeated_walk =
     [(''out/a'', [(''a_metadata.json'',
         Some (PyDict [(''tiles'', PyList [tile_entry ''a_0'' ''h1'', tile_entry ''a_1'' ''h1''])]))]),
      (''out/b'', [(''notes.txt'', None),
                   (''b_metadata.json'',
         Some (PyDict [(''tiles'', PyList [tile_entry ''b_0'' ''h2'', tile_entry ''b_1'' ''h1''])]))])]"

definition distinct_walk :: listing where
  "distinct_walk =
     [(''out/a'', [(''a_metadata.json'',
         Some (PyDict [(''tiles'', PyList [tile_entry ''a_0'' ''h1'', tile_entry ''a_1'' ''h2''])]))])]"












section \<open>Facts about the Merkle accumulator\<close>

lemma foldl_append_single: "foldl (\<lambda>acc i. acc @ [f i]) a xs = a @ map f xs"
  by (induction xs arbitrary: a) simp_all

lemma range_step2_Suc_Suc: "range_step2 (Suc (Suc n)) = 0 # map (\<lambda>i. i + 2) (range_step2 n)"
proof -
  have "[0..<(Suc (Suc n) + 1) div 2] = 0 # map Suc [0..<(n + 1) div 2]"
    by (simp add: upt_conv_Cons map_Suc_upt del: upt_Suc)
  then show ?thesis
    by (simp add: range_step2_def comp_def)
qed

lemma new_hashes_map:
  "new_hashes sha hs = map (combined_hash sha hs) (range_step2 (length hs))"
  by (simp add: new_hashes_def foldl_append_single)

lemma new_hashes_pair_level: "new_hashes sha hs = pair_level sha hs"
proof (induction sha hs rule: pair_level.induct)
  case (1 sha)
  show ?case by (simp add: new_hashes_map range_step2_def)
next
  case (2 sha l)
  show ?case by (simp add: new_hashes_map range_step2_def combined_hash_def)
next
  case (3 sha l r rest)
  have tl: "map (combined_hash sha (l # r # rest)) (map (\<lambda>i. i + 2) (range_step2 (length rest)))
      = map (combined_hash sha rest) (range_step2 (length rest))"
    by (simp add: combined_hash_def)
  have "new_hashes sha (l # r # rest)
      = combined_hash sha (l # r # rest) 0 # map (combined_hash sha rest) (range_step2 (length rest))"
    using tl by (simp add: new_hashes_map range_step2_Suc_Suc)
  also have "combined_hash sha (l # r # rest) 0 = hash_file_name sha (l @ r)"
    by (simp add: combined_hash_def)
  finally show ?case
    using "3.IH" by (simp add: new_hashes_map)
qed

lemma create_merkle_root_reference:
  "hs \<noteq> [] \<Longrightarrow> create_merkle_root sha hs = Some (merkle_reference sha hs)"
proof (induction sha hs rule: merkle_reference.induct)
  case (1 sha)
  then show ?case by simp
next
  case (2 sha h)
  show ?case by (subst create_merkle_root.simps) simp
next
  case (3 sha l r rest)
  have ne: "pair_level sha (l # r # rest) \<noteq> []" by simp
  have "create_merkle_root sha (l # r # rest)
      = create_merkle_root sha (new_hashes sha (l # r # rest))"
    by (subst create_merkle_root.simps) simp
  then show ?case
    using "3.IH" [OF ne] by (simp add: new_hashes_pair_level)
qed

lemma create_merkle_root_Some_nonempty:
  assumes "create_merkle_root sha hs = Some y"
  shows "hs \<noteq> []"
proof (rule create_merkle_root.raw_induct [where P = "\<lambda>s xs r. xs \<noteq> []", OF _ assms])
  fix f s xs r
  assume IH: "\<And>s xs r. f s xs = Some r \<Longrightarrow> xs \<noteq> []"
    and step: "(if length xs = 1 then Some (xs ! 0) else f s (new_hashes s xs)) = Some r"
  show "xs \<noteq> []"
  proof
    assume "xs = []"
    with step have "f s [] = Some r"
      by (simp add: new_hashes_map range_step2_def)
    from IH [OF this] show False by simp
  qed
qed

lemma decode_encode_char:
  "map (\<lambda>b. char_of (unat b)) (encode_char c) = [c]" if "(of_char c :: nat) < 128"
proof -
  have "unat (of_nat (of_char c) :: byte) = of_char c"
    using that by (simp add: unat_of_nat)
  then show ?thesis using that by (simp add: encode_char_def)
qed

lemma toy_sha_ascii:
  "\<forall>c\<in>set s. (of_char c :: nat) < 128 \<Longrightarrow> toy_sha (encode s) = ''('' @ s @ '')''"
  by (induction s) (simp_all add: toy_sha_def encode_def decode_encode_char)

text \<open>
  C4. For every non-empty list of hashes the Merkle root of the code is the root of the
  reference algorithm: a one-element list gives its element unchanged, and otherwise the
  levels are paired left to right (an unpaired last element combined with the empty
  string) until one hash remains. In particular the code returns on non-empty input.
\<close>

theorem merkle_root_equals_reference:
  "create_merkle_root sha [h] = Some h \<and>
   (hashes \<noteq> [] \<longrightarrow> create_merkle_root sha hashes = Some (merkle_reference sha hashes))"
proof
  show "create_merkle_root sha [h] = Some h"
    by (subst create_merkle_root.simps) simp
  show "hashes \<noteq> [] \<longrightarrow> create_merkle_root sha hashes = Some (merkle_reference sha hashes)"
    by (simp add: create_merkle_root_reference)
qed

theorem merkle_root_equals_reference_witness:
  "[''ab'', ''cd'', ''ef''] \<noteq> [] \<and>
   create_merkle_root toy_sha [''ab'', ''cd'', ''ef''] = Some ''((abcd)(ef))''"
  using merkle_root_equals_reference [of toy_sha "''ab''" "[''ab'', ''cd'', ''ef'']"]
  by (simp add: hash_file_name_def toy_sha_ascii)

text \<open>
  C7. On the empty list the code neither raises an input error nor returns a sentinel:
  the loop builds an empty \<open>new_hashes\<close> and the function calls itself on it again,
  without end. In the model the call has no value.
\<close>

theorem create_merkle_root_empty_no_result: "create_merkle_root sha [] = None"
proof (cases "create_merkle_root sha []")
  case None
  then show ?thesis .
next
  case (Some y)
  from create_merkle_root_Some_nonempty [OF this] show ?thesis by simp
qed

section \<open>Facts about the tile splitter\<close>

lemma add_cells_Nil: "add_cells st [] = st"
  by (simp add: add_cells_def)

lemma add_cells_append: "add_cells (add_cells st rs) rs' = add_cells st (rs @ rs')"
  by (simp add: add_cells_def)

lemma tile_step_Inr:
  assumes "process_tile sha w f d T a i j = Inr r"
  shows "tile_step sha w f d T a i st j = Inr (add_cells st [r])"
  using assms by (cases r) (simp add: tile_step_def add_cells_def)

lemma foldM_tile_step:
  assumes "\<forall>j\<in>set js. process_tile sha w f d T a i j = Inr (g j)"
  shows "foldM (tile_step sha w f d T a i) st js = Inr (add_cells st (map g js))"
  using assms
proof (induction js arbitrary: st)
  case Nil
  show ?case by (simp add: add_cells_Nil)
next
  case (Cons j js)
  then show ?case
    by (simp add: tile_step_Inr add_cells_append)
qed

lemma foldM_rows:
  assumes "\<forall>i\<in>set is. \<forall>j\<in>set js. process_tile sha w f d T a i j = Inr (c i j)"
  shows "foldM (\<lambda>st i. foldM (tile_step sha w f d T a i) st js) st is
         = Inr (add_cells st (concat (map (\<lambda>i. map (c i) js) is)))"
  using assms
proof (induction "is" arbitrary: st)
  case Nil
  show ?case by (simp add: add_cells_Nil)
next
  case (Cons i "is")
  from Cons.prems have "foldM (tile_step sha w f d T a i) st js = Inr (add_cells st (map (c i) js))"
    by (intro foldM_tile_step) simp
  moreover from Cons.prems
  have "\<forall>i\<in>set is. \<forall>j\<in>set js. process_tile sha w f d T a i j = Inr (c i j)"
    by simp
  ultimately show ?case
    by (simp add: Cons.IH add_cells_append)
qed

lemma slice_index_nonneg: "0 \<le> i \<Longrightarrow> nat i \<le> n \<Longrightarrow> slice_index n i = nat i"
  by (simp add: slice_index_def)

lemma tile_at_in_grid:
  assumes "shape a = [H, W]" "0 < T" "(i + 1) * nat T \<le> H" "(j + 1) * nat T \<le> W"
  shows "shape (tile_at a T i j) = [nat T, nat T]"
    and "elem (tile_at a T i j) [y, x] = elem a [i * nat T + y, j * nat T + x]"
proof -
  have n: "nat (int i * T) = i * nat T" "nat ((int i + 1) * T) = (i + 1) * nat T"
    "nat (int j * T) = j * nat T" "nat ((int j + 1) * T) = (j + 1) * nat T"
    using assms(2) by (simp_all add: nat_mult_distrib nat_add_distrib)
  have b: "i * nat T \<le> H" "j * nat T \<le> W" using assms(3,4) by simp_all
  have s: "slice_index H (int i * T) = i * nat T"
    "slice_index H ((int i + 1) * T) = (i + 1) * nat T"
    "slice_index W (int j * T) = j * nat T"
    "slice_index W ((int j + 1) * T) = (j + 1) * nat T"
    using assms(2,3,4) b n by (simp_all add: slice_index_nonneg)
  show "shape (tile_at a T i j) = [nat T, nat T]"
    using s by (simp add: tile_at_def slice2_def assms(1) Let_def)
  show "elem (tile_at a T i j) [y, x] = elem a [i * nat T + y, j * nat T + x]"
    using s by (simp add: tile_at_def slice2_def assms(1) Let_def)
qed

lemma length_elems: "length (elems a) = (shape a ! 0) * (shape a ! 1)"
  by (simp add: elems_def length_concat comp_def sum_list_triv)

lemma process_tile_in_grid:
  assumes "shape a = [H, W]" "0 < T" "(i + 1) * nat T \<le> H" "(j + 1) * nat T \<le> W"
  shows "process_tile sha w f d T a i j = Inr (cell_result sha w f d T a i j)"
proof -
  have "length (elems (tile_at a T i j)) = nat T * nat T"
    by (simp add: length_elems tile_at_in_grid(1) [OF assms])
  then have "elems (tile_at a T i j) \<noteq> []" using assms(2) by auto
  then show ?thesis using assms(2) by (simp add: process_tile_def)
qed

lemma map_cells:
  "map (\<lambda>(i, j). c i j) (cells rows cols) = concat (map (\<lambda>i. map (c i) [0..<cols]) [0..<rows])"
  by (simp add: cells_def map_concat comp_def)

lemma in_cells: "(i, j) \<in> set (cells rows cols) \<longleftrightarrow> i < rows \<and> j < cols"
  by (force simp: cells_def)

lemma grid_bound: "i < H div n \<Longrightarrow> (i + 1) * n \<le> (H::nat)"
proof -
  assume "i < H div n"
  then have "Suc i \<le> H div n" by simp
  then have "Suc i * n \<le> (H div n) * n" by (rule mult_le_mono1)
  also have "\<dots> \<le> H" by simp
  finally show ?thesis by simp
qed

lemma nat_div_tile: "0 < T \<Longrightarrow> nat (int H div T) = H div nat T"
  by (simp add: nat_div_distrib)

lemma fits_to_tiles_grid:
  assumes "primary_hdu w = Data a" "shape a = [H, W]" "0 < T" "nat T \<le> H" "nat T \<le> W"
    and "\<not> makedirs_raises w"
  shows "fits_to_tiles sha w f d T = Inr (grid_outcome sha w f d T a)"
proof -
  let ?rows = "H div nat T" and ?cols = "W div nat T"
  have cells: "\<forall>i\<in>set [0..<?rows]. \<forall>j\<in>set [0..<?cols].
      process_tile sha w f d T a i j = Inr (cell_result sha w f d T a i j)"
    using assms(2,3) by (auto intro!: process_tile_in_grid grid_bound)
  have loop: "foldM (\<lambda>st i. foldM (tile_step sha w f d T a i) st [0..<?cols])
       \<lparr>p_log = [], p_files = [], p_tiles = []\<rparr> [0..<?rows]
     = Inr (add_cells \<lparr>p_log = [], p_files = [], p_tiles = []\<rparr> (grid_results sha w f d T a))"
    using foldM_rows [OF cells] by (simp add: grid_results_def map_cells assms(2))
  have pos: "0 < int W div T" "0 < int H div T"
    using assms(3,4,5) by (simp_all add: pos_imp_zdiv_pos_iff)
  then have total: "int W div T * (int H div T) \<noteq> 0" by simp
  show ?thesis
    using total loop assms(3)
    by (simp add: fits_to_tiles_def grid_outcome_def assms(1,2,6) Let_def nat_div_tile
        add_cells_def)
qed

lemma foldM_const: "foldM (\<lambda>st i. Inr st) st xs = Inr st"
  by (induction xs) simp_all

lemma fits_to_tiles_no_tile:
  assumes "primary_hdu w = Data a" "shape a = [H, W]" "0 < T" "H < nat T \<or> W < nat T"
    and "\<not> makedirs_raises w"
  shows "fits_to_tiles sha w f d T = Inl ZeroDivisionError"
proof -
  have zero: "int W div T = 0 \<or> int H div T = 0"
    using assms(3,4) by (auto simp: div_pos_pos_trivial)
  have loop: "foldM (\<lambda>st i. foldM (tile_step sha w f d T a i) st [0..<nat (int W div T)])
       st [0..<nat (int H div T)] = Inr st" for st
    using zero by (auto simp: foldM_const)
  show ?thesis
    using zero assms(3) loop
    by (simp add: fits_to_tiles_def assms(1,2,5) Let_def)
qed

lemma length_cells: "length (cells rows cols) = rows * cols"
  by (simp add: cells_def length_concat comp_def sum_list_triv)

lemma cells_Suc: "cells (Suc rows) cols = cells rows cols @ map (\<lambda>j. (rows, j)) [0..<cols]"
  by (simp add: cells_def)

lemma nth_cells: "i < rows \<Longrightarrow> j < cols \<Longrightarrow> cells rows cols ! (i * cols + j) = (i, j)"
proof (induction rows)
  case 0
  then show ?case by simp
next
  case (Suc rows)
  show ?case
  proof (cases "i < rows")
    case True
    then have "Suc i \<le> rows" by simp
    then have "Suc i * cols \<le> rows * cols" by (rule mult_le_mono1)
    with Suc.prems(2) have "i * cols + j < rows * cols" by simp
    with True Suc show ?thesis
      by (simp add: cells_Suc nth_append length_cells)
  next
    case False
    with Suc.prems have "i = rows" by simp
    with Suc.prems(2) show ?thesis
      by (simp add: cells_Suc nth_append length_cells)
  qed
qed

lemma elems_two_constants_right: "elems (tile_at two_constants 1 0 (Suc 0)) = [7]"
  by (simp add: elems_def tile_at_def slice2_def slice_index_def two_constants_def)


section \<open>Facts about uniform tiles\<close>

lemma concat_replicate_rows: "concat (replicate h (replicate w v)) = replicate (h * w) v"
  by (induction h) (simp_all add: replicate_add)

lemma elems_uniform:
  assumes "shape t = [h, w]" "\<forall>y<h. \<forall>x<w. elem t [y, x] = v"
  shows "elems t = replicate (h * w) v"
proof -
  have row: "map (\<lambda>x. elem t [y, x]) [0..<w] = replicate w v" if "y < h" for y
    using assms(2) that by (intro nth_equalityI) simp_all
  have "map (\<lambda>y. map (\<lambda>x. elem t [y, x]) [0..<w]) [0..<h] = replicate h (replicate w v)"
    using row by (intro nth_equalityI) simp_all
  then show ?thesis
    by (simp add: elems_def assms(1) concat_replicate_rows)
qed

lemma sample_in_elems:
  assumes "shape t = [h, w]" "y < h" "x < w"
  shows "elem t [y, x] \<in> set (elems t)"
  using assms by (force simp: elems_def)

lemma uniform_degenerate:
  assumes "elems t = replicate n v" "0 < n"
  shows "degenerate t"
  using assms by (simp add: degenerate_def tile_min_def tile_max_def)

lemma degenerate_uniform:
  assumes "shape t = [h, w]" "degenerate t" "y < h" "x < w"
  shows "elem t [y, x] = tile_min t"
proof -
  let ?S = "set (elems t)"
  have in_S: "elem t [y, x] \<in> ?S" by (rule sample_in_elems [OF assms(1,3,4)])
  have "Min ?S \<le> elem t [y, x]" "elem t [y, x] \<le> Max ?S"
    using in_S by simp_all
  moreover have "Max ?S = Min ?S"
    using assms(2) by (simp add: degenerate_def tile_min_def tile_max_def)
  ultimately show ?thesis by (simp add: tile_min_def)
qed

text \<open>
  For a tile of the grid, the test \<^verbatim>\<open>tile_max == tile_min\<close> holds exactly when all its
  samples are equal.
\<close>

lemma degenerate_iff_uniform:
  assumes "shape a = [H, W]" "0 < T" "i < H div nat T" "j < W div nat T"
  shows "degenerate (tile_at a T i j) \<longleftrightarrow>
     (\<exists>v. \<forall>y<nat T. \<forall>x<nat T. elem a [i * nat T + y, j * nat T + x] = v)"
proof -
  note g = tile_at_in_grid [OF assms(1,2) grid_bound [OF assms(3)] grid_bound [OF assms(4)]]
  show ?thesis
  proof
    assume d: "degenerate (tile_at a T i j)"
    have "\<forall>y<nat T. \<forall>x<nat T. elem a [i * nat T + y, j * nat T + x] = tile_min (tile_at a T i j)"
      using degenerate_uniform [OF g(1) d] by (simp add: g(2))
    then show "\<exists>v. \<forall>y<nat T. \<forall>x<nat T. elem a [i * nat T + y, j * nat T + x] = v" ..
  next
    assume "\<exists>v. \<forall>y<nat T. \<forall>x<nat T. elem a [i * nat T + y, j * nat T + x] = v"
    then obtain v where "\<forall>y<nat T. \<forall>x<nat T. elem (tile_at a T i j) [y, x] = v"
      by (auto simp: g(2))
    from elems_uniform [OF g(1) this] show "degenerate (tile_at a T i j)"
      using assms(2) by (intro uniform_degenerate [of _ "nat T * nat T" v]) simp_all
  qed
qed

lemma le_bytes_zero: "le_bytes 0 = [0, 0]"
  by (simp add: le_bytes_def)

lemma tobytes_zeros: "tobytes (zeros h w) = replicate (2 * h * w) 0"
proof -
  have e: "elems (zeros h w) = replicate (h * w) 0"
    by (rule elems_uniform) (simp_all add: zeros_def)
  have "concat (replicate n [0::byte, 0]) = replicate (2 * n) 0" for n
    by (induction n) simp_all
  then show ?thesis
    by (simp add: tobytes_def e le_bytes_zero map_replicate mult.assoc)
qed

lemma slash_not_in_str_nat: "CHR ''/'' \<notin> set (str_nat n)"
proof (induction n rule: str_nat.induct)
  case (1 n)
  have d: "CHR ''/'' \<noteq> digit k" if "k < 10" for k
  proof -
    from that have "k \<in> {0, 1, 2, 3, 4, 5, 6, 7, 8, 9}" by auto
    then show ?thesis by (auto simp: digit_def)
  qed
  show ?case
  proof (cases "n < 10")
    case True
    then show ?thesis by (subst str_nat.simps) (simp add: d)
  next
    case False
    then show ?thesis using 1 by (subst str_nat.simps) (simp add: d)
  qed
qed

lemma slash_not_in_basename: "CHR ''/'' \<notin> set (basename p)"
  by (auto simp: basename_def dest: set_takeWhileD)

lemma basename_path_join:
  assumes "CHR ''/'' \<notin> set b"
  shows "basename (path_join a b) = b"
proof -
  have tw: "takeWhile (\<lambda>c. c \<noteq> CHR ''/'') (rev b @ ys) = rev b @ takeWhile (\<lambda>c. c \<noteq> CHR ''/'') ys" for ys
    using assms by (intro takeWhile_append2) auto
  have hd: "\<not> (b \<noteq> [] \<and> hd b = CHR ''/'')" using assms by (cases b) auto
  show ?thesis
  proof (cases "a = [] \<or> last a = CHR ''/''")
    case True
    then have "takeWhile (\<lambda>c. c \<noteq> CHR ''/'') (rev a) = []"
      by (cases a rule: rev_cases) auto
    then show ?thesis using True hd by (auto simp: basename_def path_join_def tw)
  next
    case False
    then show ?thesis using hd by (auto simp: basename_def path_join_def tw)
  qed
qed

lemma tile_record_fields:
  "snd (snd (cell_result sha w f d T a i j)) =
     PyDict
       [(''tile_id'', PyStr (basename f @ ''_tile_'' @ str_nat i @ ''_'' @ str_nat j)),
        (''filename'', PyStr (basename f @ ''_tile_'' @ str_nat i @ ''_'' @ str_nat j @ ''.png'')),
        (''hash'', PyStr (sha (tobytes (normalized_tile T (tile_at a T i j))))),
        (''position'', PyDict
           [(''x_start'', PyInt (int j * T)), (''y_start'', PyInt (int i * T)),
            (''x_end'', PyInt ((int j + 1) * T)), (''y_end'', PyInt ((int i + 1) * T))])]"
proof -
  have "CHR ''/'' \<notin> set (tile_id_of f i j @ ''.png'')"
    by (simp add: tile_id_of_def slash_not_in_str_nat slash_not_in_basename)
  then have "basename (tile_filename_of f d i j) = tile_id_of f i j @ ''.png''"
    unfolding tile_filename_of_def by (rule basename_path_join)
  then show ?thesis
    by (simp add: cell_result_def Let_def tile_metadata_def calculate_hash_def tile_id_of_def)
qed
lemma written_tile_names:
  "map fst (concat (map (fst \<circ> snd) (map (\<lambda>(i, j). cell_result sha w f d T a i j) cs)))
     = filter (\<lambda>p. imwrite w p = Written)
         (map (\<lambda>(i, j). path_join d
                 (basename f @ ''_tile_'' @ str_nat i @ ''_'' @ str_nat j @ ''.png'')) cs)"
  by (induction cs)
    (simp_all add: cell_result_def Let_def split_def tile_filename_of_def tile_id_of_def)


section \<open>Claims about the tile splitter\<close>

text \<open>
  C1. The claim promises, for every 2-D raster and tile size, a manifest with
  \<open>floor(W/T) * floor(H/T)\<close> records. For a raster smaller than the tile in one
  direction that count is zero, and the code does not reach the manifest: after the
  (empty) loops it divides the elapsed time by \<open>total_tiles = 0\<close>. Here a raster of
  300 rows and 400 columns with the default tile size 500. (For a raster with at least
  one tile, \<open>fits_to_tiles_grid\<close> gives the manifest the claim describes.)
\<close>

theorem fits_to_tiles_small_raster_raises:
  "fits_to_tiles sha
     \<lparr>makedirs_raises = False, primary_hdu = Data \<lparr>shape = [300, 400], elem = px\<rparr>,
      imwrite = wr, dump_raises = dr\<rparr> fits_file output_dir 500
   = Inl ZeroDivisionError"
proof (rule fits_to_tiles_no_tile)
  show "shape \<lparr>shape = [300, 400], elem = px\<rparr> = [300, 400]" by simp
qed simp_all

text \<open>
  C9. When the raster is not 2-dimensional the run logs the error
  "FITS file does not contain 2D image data" and returns: no tile file is written and no
  manifest is written. (If the output directory cannot be created the run ends before
  that, with the exception of \<^verbatim>\<open>os.makedirs\<close>.)
\<close>

theorem fits_to_tiles_not_2d:
  assumes "primary_hdu w = Data a" "length (shape a) \<noteq> 2"
  shows "fits_to_tiles sha w f d T =
     (if makedirs_raises w then Inl OSError
      else Inr \<lparr>events = [(ERROR, ''Error: FITS file does not contain 2D image data'')],
                tile_files = [], json_file = None\<rparr>)"
  using assms by (simp add: fits_to_tiles_def failed_def)

theorem fits_to_tiles_not_2d_witness:
  "primary_hdu (quiet_world data_cube) = Data data_cube \<and> length (shape data_cube) \<noteq> 2
   \<and> fits_to_tiles toy_sha (quiet_world data_cube) ''cube.fits'' ''out'' 500 =
       Inr \<lparr>events = [(ERROR, ''Error: FITS file does not contain 2D image data'')],
            tile_files = [], json_file = None\<rparr>"
proof -
  have h1: "primary_hdu (quiet_world data_cube) = Data data_cube"
    by (simp add: quiet_world_def)
  have h2: "length (shape data_cube) \<noteq> 2" by (simp add: data_cube_def)
  from fits_to_tiles_not_2d [OF h1 h2, of toy_sha "''cube.fits''" "''out''" 500]
  show ?thesis using h1 h2 by (simp add: quiet_world_def)
qed


text \<open>
  C6. Take a cell \<open>(i, j)\<close> of the grid all of whose samples are equal, so that its
  minimum equals its maximum. Then the run completes; the log holds the warning-level
  event "Tile (i, j) has uniform value"; the image written for the cell, if
  \<^verbatim>\<open>cv2.imwrite\<close> writes it, has \<open>T\<close> rows and \<open>T\<close> columns and is zero everywhere; and
  the tile files on disk are, in grid order, those of the cells for which
  \<^verbatim>\<open>cv2.imwrite\<close> wrote the file; and
  the manifest, if it is written, has one record for every cell of the grid, in
  row-major order: the record of the cell \<open>(i, j)\<close> carries the SHA-256 of the
  \<open>2 * T * T\<close> zero bytes of the all-zero tile, and every cell, before or after it,
  has the record with its own tile id, file name and position.
\<close>

theorem degenerate_tile_zero_filled_and_recorded:
  assumes "primary_hdu w = Data a" "shape a = [H, W]" "0 < T" "\<not> makedirs_raises w"
    and "i < H div nat T" "j < W div nat T"
    and "\<forall>y<nat T. \<forall>x<nat T. elem a [i * nat T + y, j * nat T + x] = v"
  shows "\<exists>out ts img. fits_to_tiles sha w f d T = Inr out
     \<and> (WARNING, ''Tile ('' @ str_nat i @ '', '' @ str_nat j @ '') has uniform value'')
         \<in> set (events out)
     \<and> shape img = [nat T, nat T] \<and> (\<forall>idx. elem img idx = 0)
     \<and> (imwrite w (path_join d (basename f @ ''_tile_'' @ str_nat i @ ''_'' @ str_nat j @ ''.png''))
           = Written \<longrightarrow>
          (path_join d (basename f @ ''_tile_'' @ str_nat i @ ''_'' @ str_nat j @ ''.png''), img)
            \<in> set (tile_files out))
     \<and> map fst (tile_files out) =
          filter (\<lambda>p. imwrite w p = Written)
            (concat (map (\<lambda>i'. map (\<lambda>j'. path_join d
                       (basename f @ ''_tile_'' @ str_nat i' @ ''_'' @ str_nat j' @ ''.png''))
                     [0..<W div nat T]) [0..<H div nat T]))
     \<and> (\<not> dump_raises w \<longrightarrow>
          json_file out = Some (path_join d (basename f @ ''_metadata.json''),
            PyDict [(''fits_file'', PyStr (basename f)), (''tile_size'', PyInt T),
                    (''tiles'', PyList ts)]))
     \<and> length ts = (H div nat T) * (W div nat T)
     \<and> ts ! (i * (W div nat T) + j) =
          PyDict
            [(''tile_id'', PyStr (basename f @ ''_tile_'' @ str_nat i @ ''_'' @ str_nat j)),
             (''filename'',
                PyStr (basename f @ ''_tile_'' @ str_nat i @ ''_'' @ str_nat j @ ''.png'')),
             (''hash'', PyStr (sha (replicate (2 * nat T * nat T) 0))),
             (''position'', PyDict
                [(''x_start'', PyInt (int j * T)), (''y_start'', PyInt (int i * T)),
                 (''x_end'', PyInt ((int j + 1) * T)), (''y_end'', PyInt ((int i + 1) * T))])]
     \<and> (\<forall>i'<H div nat T. \<forall>j'<W div nat T. \<exists>h.
          ts ! (i' * (W div nat T) + j') =
            PyDict
              [(''tile_id'', PyStr (basename f @ ''_tile_'' @ str_nat i' @ ''_'' @ str_nat j')),
               (''filename'',
                  PyStr (basename f @ ''_tile_'' @ str_nat i' @ ''_'' @ str_nat j' @ ''.png'')),
               (''hash'', PyStr h),
               (''position'', PyDict
                  [(''x_start'', PyInt (int j' * T)), (''y_start'', PyInt (int i' * T)),
                   (''x_end'', PyInt ((int j' + 1) * T)),
                   (''y_end'', PyInt ((int i' + 1) * T))])])"
proof -
  let ?rs = "grid_results sha w f d T a"
  let ?cols = "W div nat T" and ?rows = "H div nat T"
  let ?ts = "map (snd \<circ> snd) ?rs"
  let ?path = "path_join d (basename f @ ''_tile_'' @ str_nat i @ ''_'' @ str_nat j @ ''.png'')"
  let ?out = "grid_outcome sha w f d T a"
  have T: "nat T \<le> H" "nat T \<le> W"
    using assms(3,5,6) by (auto simp: div_greater_zero_iff dest: gr_implies_not0 intro: ccontr)
  note run = fits_to_tiles_grid [OF assms(1,2,3) T assms(4), of sha f d]
  have deg: "degenerate (tile_at a T i j)"
    using degenerate_iff_uniform [OF assms(2,3,5,6)] assms(7) by blast
  have norm: "normalized_tile T (tile_at a T i j) = zeros (nat T) (nat T)"
    using deg by (simp add: normalized_tile_def)
  have path: "tile_filename_of f d i j = ?path"
    by (simp add: tile_filename_of_def tile_id_of_def)
  have cell: "(i, j) \<in> set (cells ?rows ?cols)"
    using assms(5,6) by (simp add: in_cells)
  have res: "cell_result sha w f d T a i j \<in> set ?rs"
    using cell by (force simp: grid_results_def assms(2))
  have warn: "(WARNING, ''Tile ('' @ str_nat i @ '', '' @ str_nat j @ '') has uniform value'')
      \<in> set (fst (cell_result sha w f d T a i j))"
    using deg by (simp add: cell_result_def Let_def uniform_warning_def)
  have written: "imwrite w ?path = Written \<Longrightarrow>
      (?path, zeros (nat T) (nat T)) \<in> set (fst (snd (cell_result sha w f d T a i j)))"
    using norm by (simp add: cell_result_def Let_def path)
  have len: "length ?ts = ?rows * ?cols"
    by (simp add: grid_results_def length_cells assms(2))
  have idx: "i' * ?cols + j' < length (cells ?rows ?cols)"
    if "i' < ?rows" "j' < ?cols" for i' j'
  proof -
    have "Suc i' * ?cols \<le> ?rows * ?cols"
      using that(1) by (intro mult_le_mono1) simp
    then show ?thesis using that(2) by (simp add: length_cells)
  qed
  have nth: "?ts ! (i' * ?cols + j') = snd (snd (cell_result sha w f d T a i' j'))"
    if "i' < ?rows" "j' < ?cols" for i' j'
    using idx [OF that] nth_cells [OF that]
    by (simp add: grid_results_def assms(2))
  have 1: "(WARNING, ''Tile ('' @ str_nat i @ '', '' @ str_nat j @ '') has uniform value'')
      \<in> set (events ?out)"
    using res warn by (auto simp: grid_outcome_def)
  have 2: "imwrite w ?path = Written \<longrightarrow> (?path, zeros (nat T) (nat T)) \<in> set (tile_files ?out)"
    using res written
    by (auto simp: grid_outcome_def intro!: bexI [of _ "cell_result sha w f d T a i j"])
  have 3: "\<not> dump_raises w \<longrightarrow> json_file ?out =
        Some (path_join d (basename f @ ''_metadata.json''),
          PyDict [(''fits_file'', PyStr (basename f)), (''tile_size'', PyInt T),
                  (''tiles'', PyList ?ts)])"
    by (simp add: grid_outcome_def)
  have 4: "shape (zeros (nat T) (nat T)) = [nat T, nat T]"
    "\<forall>idx. elem (zeros (nat T) (nat T)) idx = 0"
    by (simp_all add: zeros_def)
  have 5: "?ts ! (i * ?cols + j) =
          PyDict
            [(''tile_id'', PyStr (basename f @ ''_tile_'' @ str_nat i @ ''_'' @ str_nat j)),
             (''filename'',
                PyStr (basename f @ ''_tile_'' @ str_nat i @ ''_'' @ str_nat j @ ''.png'')),
             (''hash'', PyStr (sha (replicate (2 * nat T * nat T) 0))),
             (''position'', PyDict
                [(''x_start'', PyInt (int j * T)), (''y_start'', PyInt (int i * T)),
                 (''x_end'', PyInt ((int j + 1) * T)), (''y_end'', PyInt ((int i + 1) * T))])]"
    by (simp only: nth [OF assms(5,6)] tile_record_fields norm tobytes_zeros)
  have 6: "\<forall>i'<?rows. \<forall>j'<?cols. \<exists>h.
          ?ts ! (i' * ?cols + j') =
            PyDict
              [(''tile_id'', PyStr (basename f @ ''_tile_'' @ str_nat i' @ ''_'' @ str_nat j')),
               (''filename'',
                  PyStr (basename f @ ''_tile_'' @ str_nat i' @ ''_'' @ str_nat j' @ ''.png'')),
               (''hash'', PyStr h),
               (''position'', PyDict
                  [(''x_start'', PyInt (int j' * T)), (''y_start'', PyInt (int i' * T)),
                   (''x_end'', PyInt ((int j' + 1) * T)),
                   (''y_end'', PyInt ((int i' + 1) * T))])]"
  proof (intro allI impI)
    fix i' j' assume b: "i' < ?rows" "j' < ?cols"
    show "\<exists>h. ?ts ! (i' * ?cols + j') =
            PyDict
              [(''tile_id'', PyStr (basename f @ ''_tile_'' @ str_nat i' @ ''_'' @ str_nat j')),
               (''filename'',
                  PyStr (basename f @ ''_tile_'' @ str_nat i' @ ''_'' @ str_nat j' @ ''.png'')),
               (''hash'', PyStr h),
               (''position'', PyDict
                  [(''x_start'', PyInt (int j' * T)), (''y_start'', PyInt (int i' * T)),
                   (''x_end'', PyInt ((int j' + 1) * T)),
                   (''y_end'', PyInt ((int i' + 1) * T))])]"
      unfolding nth [OF b] tile_record_fields by (rule exI) (rule refl)
  qed
  have 7: "map fst (tile_files ?out) =
          filter (\<lambda>p. imwrite w p = Written)
            (concat (map (\<lambda>i'. map (\<lambda>j'. path_join d
                       (basename f @ ''_tile_'' @ str_nat i' @ ''_'' @ str_nat j' @ ''.png''))
                     [0..<?cols]) [0..<?rows]))"
  proof -
    have "tile_files ?out = concat (map (fst \<circ> snd)
        (map (\<lambda>(i, j). cell_result sha w f d T a i j) (cells ?rows ?cols)))"
      by (simp add: grid_outcome_def grid_results_def assms(2))
    then have "map fst (tile_files ?out) =
        filter (\<lambda>p. imwrite w p = Written)
          (map (\<lambda>(i', j'). path_join d
                  (basename f @ ''_tile_'' @ str_nat i' @ ''_'' @ str_nat j' @ ''.png''))
             (cells ?rows ?cols))"
      by (simp only: written_tile_names)
    then show ?thesis by (simp only: map_cells)
  qed
  show ?thesis
    using run 1 2 3 4 len 5 6 7
    by (intro exI [of _ ?out] exI [of _ ?ts] exI [of _ "zeros (nat T) (nat T)"]) blast
qed

lemma half_flat_left:
  "\<forall>y<nat 2. \<forall>x<nat 2. elem half_flat [0 * nat 2 + y, 0 * nat 2 + x] = 5"
  by (simp add: half_flat_def)

theorem degenerate_tile_zero_filled_and_recorded_witness:
  "primary_hdu (quiet_world half_flat) = Data half_flat
   \<and> shape half_flat = [2, 4] \<and> (0::int) < 2
   \<and> \<not> makedirs_raises (quiet_world half_flat)
   \<and> (0::nat) < 2 div nat 2 \<and> (0::nat) < 4 div nat 2
   \<and> elem half_flat [0, 0] = 5 \<and> elem half_flat [0, 1] = 5
   \<and> elem half_flat [1, 0] = 5 \<and> elem half_flat [1, 1] = 5
   \<and> elem half_flat [0, 2] = 2 \<and> elem half_flat [1, 3] = 13
   \<and> imwrite (quiet_world half_flat) ''out/m31.fits_tile_0_0.png'' = Written
   \<and> \<not> dump_raises (quiet_world half_flat)
   \<and> (\<exists>out ts img h. fits_to_tiles toy_sha (quiet_world half_flat) ''m31.fits'' ''out'' 2 = Inr out
        \<and> (WARNING, ''Tile (0, 0) has uniform value'') \<in> set (events out)
        \<and> (''out/m31.fits_tile_0_0.png'', img) \<in> set (tile_files out)
        \<and> map fst (tile_files out) = [''out/m31.fits_tile_0_0.png'', ''out/m31.fits_tile_0_1.png'']
        \<and> shape img = [2, 2]
        \<and> elem img [0, 0] = 0 \<and> elem img [0, 1] = 0 \<and> elem img [1, 0] = 0 \<and> elem img [1, 1] = 0
        \<and> json_file out = Some (''out/m31.fits_metadata.json'',
             PyDict [(''fits_file'', PyStr ''m31.fits''), (''tile_size'', PyInt 2),
                     (''tiles'', PyList ts)])
        \<and> length ts = 2
        \<and> ts ! 0 =
             PyDict [(''tile_id'', PyStr ''m31.fits_tile_0_0''),
                     (''filename'', PyStr ''m31.fits_tile_0_0.png''),
                     (''hash'', PyStr (toy_sha (replicate 8 0))),
                     (''position'', PyDict [(''x_start'', PyInt 0), (''y_start'', PyInt 0),
                                            (''x_end'', PyInt 2), (''y_end'', PyInt 2)])]
        \<and> ts ! 1 =
             PyDict [(''tile_id'', PyStr ''m31.fits_tile_0_1''),
                     (''filename'', PyStr ''m31.fits_tile_0_1.png''),
                     (''hash'', PyStr h),
                     (''position'', PyDict [(''x_start'', PyInt 2), (''y_start'', PyInt 0),
                                            (''x_end'', PyInt 4), (''y_end'', PyInt 2)])])"
proof -
  let ?w = "quiet_world half_flat"
  have h1: "primary_hdu ?w = Data half_flat" by (simp add: quiet_world_def)
  have h2: "shape half_flat = [2, 4]" by (simp add: half_flat_def)
  have h3: "(0::int) < 2" by simp
  have h4: "\<not> makedirs_raises ?w" by (simp add: quiet_world_def)
  have h5: "(0::nat) < 2 div nat 2" by simp
  have h6: "(0::nat) < 4 div nat 2" by simp
  have h8: "imwrite ?w p = Written" for p by (simp add: quiet_world_def)
  have h9: "\<not> dump_raises ?w" by (simp add: quiet_world_def)
  have u: "[0..<2] = [0, Suc 0]" by (simp add: numeral_2_eq_2)
  have s: "str_nat 0 = ''0''" "str_nat (Suc 0) = ''1''"
    by (simp_all add: str_nat.simps digit_def)
  have names: "basename ''m31.fits'' = ''m31.fits''"
    "path_join ''out'' ''m31.fits_tile_0_0.png'' = ''out/m31.fits_tile_0_0.png''"
    "path_join ''out'' ''m31.fits_tile_0_1.png'' = ''out/m31.fits_tile_0_1.png''"
    "path_join ''out'' ''m31.fits_metadata.json'' = ''out/m31.fits_metadata.json''"
    by (simp_all add: path_join_def basename_def)
  have px: "elem half_flat [0, 0] = 5" "elem half_flat [0, 1] = 5"
    "elem half_flat [1, 0] = 5" "elem half_flat [1, 1] = 5"
    "elem half_flat [0, 2] = 2" "elem half_flat [1, 3] = 13"
    by (simp_all add: half_flat_def)
  from degenerate_tile_zero_filled_and_recorded
    [OF h1 h2 h3 h4 h5 h6 half_flat_left, of toy_sha "''m31.fits''" "''out''"]
  obtain out ts img where
    run: "fits_to_tiles toy_sha ?w ''m31.fits'' ''out'' 2 = Inr out"
    and ev: "(WARNING, ''Tile (0, 0) has uniform value'') \<in> set (events out)"
    and img: "shape img = [2, 2]" "\<forall>idx. elem img idx = 0"
    and fl: "(''out/m31.fits_tile_0_0.png'', img) \<in> set (tile_files out)"
    and fls: "map fst (tile_files out) =
        [''out/m31.fits_tile_0_0.png'', ''out/m31.fits_tile_0_1.png'']"
    and js: "json_file out = Some (''out/m31.fits_metadata.json'',
             PyDict [(''fits_file'', PyStr ''m31.fits''), (''tile_size'', PyInt 2),
                     (''tiles'', PyList ts)])"
    and len: "length ts = 2"
    and first: "ts ! 0 =
             PyDict [(''tile_id'', PyStr ''m31.fits_tile_0_0''),
                     (''filename'', PyStr ''m31.fits_tile_0_0.png''),
                     (''hash'', PyStr (toy_sha (replicate 8 0))),
                     (''position'', PyDict [(''x_start'', PyInt 0), (''y_start'', PyInt 0),
                                            (''x_end'', PyInt 2), (''y_end'', PyInt 2)])]"
    and second: "\<exists>h. ts ! 1 =
             PyDict [(''tile_id'', PyStr ''m31.fits_tile_0_1''),
                     (''filename'', PyStr ''m31.fits_tile_0_1.png''),
                     (''hash'', PyStr h),
                     (''position'', PyDict [(''x_start'', PyInt 2), (''y_start'', PyInt 0),
                                            (''x_end'', PyInt 4), (''y_end'', PyInt 2)])]"
    using h8 h9 by (auto simp: names s u less_2_cases_iff)
  show ?thesis
    using h1 h2 h4 h8 h9 px run ev img fl fls js len first second by auto
qed

section \<open>Facts about double-precision rounding and the normalisation\<close>

lemma ilog2_bounds:
  assumes "0 < x"
  shows "2 powi ilog2 x \<le> x \<and> x < 2 powi (ilog2 x + 1)"
proof -
  obtain p q where pq: "quotient_of x = (p, q)" by (cases "quotient_of x")
  have q: "0 < q" using pq by (rule quotient_of_denom_pos)
  have x: "x = of_int p / of_int q" using pq by (rule quotient_of_div)
  have p: "0 < p" using assms q unfolding x by (simp add: zero_less_divide_iff)
  define a where "a = bitlen p"
  define b where "b = bitlen q"
  have a1: "1 \<le> a" using p unfolding a_def by (simp add: bitlen_def floorlog_def)
  have b1: "1 \<le> b" using q unfolding b_def by (simp add: bitlen_def floorlog_def)
  have pb: "2 ^ nat (a - 1) \<le> p" "p < 2 ^ nat a"
    using bitlen_bounds [OF p] by (simp_all add: a_def)
  have qb: "2 ^ nat (b - 1) \<le> q" "q < 2 ^ nat b"
    using bitlen_bounds [OF q] by (simp_all add: b_def)
  have pr: "(2::rat) powi (a - 1) \<le> of_int p" "of_int p < (2::rat) powi a"
  proof -
    have "(of_int (2 ^ nat (a - 1)) :: rat) \<le> of_int p" using pb(1) by (simp only: of_int_le_iff)
    then show "(2::rat) powi (a - 1) \<le> of_int p" using a1 by (simp add: power_int_def)
    have "(of_int p :: rat) < of_int (2 ^ nat a)" using pb(2) by (simp only: of_int_less_iff)
    then show "of_int p < (2::rat) powi a" using a1 by (simp add: power_int_def)
  qed
  have qr: "(2::rat) powi (b - 1) \<le> of_int q" "of_int q < (2::rat) powi b"
  proof -
    have "(of_int (2 ^ nat (b - 1)) :: rat) \<le> of_int q" using qb(1) by (simp only: of_int_le_iff)
    then show "(2::rat) powi (b - 1) \<le> of_int q" using b1 by (simp add: power_int_def)
    have "(of_int q :: rat) < of_int (2 ^ nat b)" using qb(2) by (simp only: of_int_less_iff)
    then show "of_int q < (2::rat) powi b" using b1 by (simp add: power_int_def)
  qed
  have qpos: "(0::rat) < of_int q" using q by simp
  have lower: "(2::rat) powi (a - b - 1) < x"
  proof -
    have "(2::rat) powi (a - b - 1) * of_int q < 2 powi (a - b - 1) * 2 powi b"
      using qr(2) by (simp add: zero_less_power_int)
    also have "\<dots> = 2 powi (a - 1)"
      by (simp add: power_int_add [symmetric])
    also have "\<dots> \<le> of_int p" by (rule pr(1))
    finally show ?thesis
      unfolding x using qpos by (simp add: pos_less_divide_eq)
  qed
  have upper: "x < (2::rat) powi (a - b + 1)"
  proof -
    have "of_int p < (2::rat) powi a" by (rule pr(2))
    also have "\<dots> = 2 powi (a - b + 1) * 2 powi (b - 1)"
      by (simp add: power_int_add [symmetric])
    also have "\<dots> \<le> 2 powi (a - b + 1) * of_int q"
      using qr(1) by (simp add: zero_less_power_int)
    finally show ?thesis
      unfolding x using qpos by (simp add: pos_divide_less_eq)
  qed
  show ?thesis
  proof (cases "2 powi (a - b) \<le> x")
    case True
    then have "ilog2 x = a - b" by (simp add: ilog2_def pq a_def b_def)
    with True upper show ?thesis by simp
  next
    case False
    then have "ilog2 x = a - b - 1" by (simp add: ilog2_def pq a_def b_def)
    with False lower show ?thesis by simp
  qed
qed

lemma round_half_even_err: "\<bar>of_int (round_half_even x) - x\<bar> \<le> 1 / 2"
proof -
  have "of_int \<lfloor>x\<rfloor> \<le> x" "x < of_int \<lfloor>x\<rfloor> + 1" by linarith+
  then show ?thesis
    by (auto simp: round_half_even_def Let_def abs_le_iff)
qed

lemma fl64_err:
  assumes "0 < x"
  shows "\<bar>fl64 x - x\<bar> \<le> x / 2 ^ 53"
proof -
  define e where "e = ilog2 x"
  define m where "m = x * 2 powi (52 - e)"
  have pos: "(0::rat) < 2 powi (e - 52)" by (simp add: zero_less_power_int)
  have xm: "x = m * 2 powi (e - 52)"
    unfolding m_def by (simp add: power_int_add [symmetric])
  have fl: "fl64 x = of_int (round_half_even m) * 2 powi (e - 52)"
    using assms by (simp add: fl64_def e_def m_def Let_def)
  have "fl64 x - x = (of_int (round_half_even m) - m) * 2 powi (e - 52)"
    unfolding fl using xm by (simp add: algebra_simps)
  then have "\<bar>fl64 x - x\<bar> = \<bar>of_int (round_half_even m) - m\<bar> * 2 powi (e - 52)"
    using pos by (simp add: abs_mult)
  also have "\<dots> \<le> (1 / 2) * 2 powi (e - 52)"
    using round_half_even_err [of m] pos by (intro mult_right_mono) simp_all
  also have "\<dots> = 2 powi e / 2 ^ 53"
  proof -
    have "(2::rat) powi (e - 52) = 2 powi e / 2 ^ 52"
      by (simp add: power_int_diff)
    then show ?thesis by simp
  qed
  also have "\<dots> \<le> x / 2 ^ 53"
    using ilog2_bounds [OF assms] by (simp add: e_def divide_right_mono)
  finally show ?thesis .
qed

lemma scaled_error:
  fixes r :: rat
  assumes "0 < r" "r \<le> 1"
  shows "\<bar>fl64 (fl64 r * 65535) - r * 65535\<bar> < 1 / 65535"
proof -
  define u :: rat where "u = 1 / 2 ^ 53"
  define q where "q = fl64 r"
  define p where "p = fl64 (q * 65535)"
  have q1: "\<bar>q - r\<bar> \<le> r * u"
    using fl64_err [OF assms(1)] by (simp add: q_def u_def)
  have u: "0 < u" "u < 1 / 1000000000000000" by (simp_all add: u_def)
  have ru: "r * u \<le> u" using assms u(1) by (simp add: mult_le_cancel_right1)
  have "r - r * u \<le> q" using q1 by (simp add: abs_le_iff)
  moreover have "r * u < r" using assms(1) u by (simp add: mult_less_cancel_left2)
  ultimately have qpos: "0 < q" by linarith
  have qle: "q \<le> r + r * u" using q1 by (simp add: abs_le_iff)
  have p1: "\<bar>p - q * 65535\<bar> \<le> q * 65535 * u"
    using fl64_err [of "q * 65535"] qpos by (simp add: p_def u_def)
  have "q \<le> 1 + u" using qle ru assms(2) by linarith
  then have qu: "q * u \<le> (1 + u) * u" using u(1) by (simp add: mult_right_mono)
  have scale: "\<bar>q * 65535 - r * 65535\<bar> = \<bar>q - r\<bar> * 65535"
  proof -
    have "q * 65535 - r * 65535 = (q - r) * 65535" by (simp add: left_diff_distrib)
    then show ?thesis by (simp only: abs_mult abs_numeral)
  qed
  have "\<bar>p - r * 65535\<bar> \<le> \<bar>p - q * 65535\<bar> + \<bar>q * 65535 - r * 65535\<bar>"
    by linarith
  also have "\<dots> = \<bar>p - q * 65535\<bar> + \<bar>q - r\<bar> * 65535"
    by (simp only: scale)
  also have "\<dots> \<le> q * 65535 * u + (r * u) * 65535"
  proof (rule add_mono [OF p1])
    show "\<bar>q - r\<bar> * 65535 \<le> (r * u) * 65535"
      using q1 by (intro mult_right_mono) simp_all
  qed
  also have "\<dots> = 65535 * (q * u) + 65535 * (r * u)" by simp
  also have "\<dots> \<le> 65535 * ((1 + u) * u) + 65535 * u"
  proof (rule add_mono)
    show "65535 * (q * u) \<le> 65535 * ((1 + u) * u)"
      using qu by (intro mult_left_mono) simp_all
    show "65535 * (r * u) \<le> 65535 * u"
      using ru by (intro mult_left_mono) simp_all
  qed
  also have "\<dots> < 1 / 65535" by (simp add: u_def)
  finally show ?thesis by (simp add: p_def q_def)
qed

lemma floor_near_fraction:
  fixes p :: rat and a d :: int
  assumes d: "0 < d" and close: "\<bar>p - of_int a / of_int d\<bar> < 1 / of_int d"
  shows "\<lceil>of_int a / of_int d :: rat\<rceil> - 1 \<le> \<lfloor>p\<rfloor> \<and> \<lfloor>p\<rfloor> \<le> \<lfloor>of_int a / of_int d :: rat\<rfloor>"
proof -
  define x :: rat where "x = of_int a / of_int d"
  have dpos: "(0::rat) < of_int d" using d by simp
  have xd: "x * of_int d = of_int a" using d by (simp add: x_def)
  have up: "p < x + 1 / of_int d" and lo: "x - 1 / of_int d < p"
    using close by (simp_all add: x_def abs_less_iff) 
  have "x < of_int (\<lfloor>x\<rfloor> + 1)" by linarith
  then have "x * of_int d < of_int (\<lfloor>x\<rfloor> + 1) * of_int d"
    using dpos by (simp only: mult_less_cancel_right_pos)
  then have "(of_int a :: rat) < of_int ((\<lfloor>x\<rfloor> + 1) * d)" by (simp add: xd)
  then have "a < (\<lfloor>x\<rfloor> + 1) * d" by (simp only: of_int_less_iff)
  then have "a + 1 \<le> (\<lfloor>x\<rfloor> + 1) * d" by simp
  then have "(of_int (a + 1) :: rat) \<le> of_int ((\<lfloor>x\<rfloor> + 1) * d)" by (simp only: of_int_le_iff)
  then have "(of_int a + 1) / of_int d \<le> (of_int (\<lfloor>x\<rfloor> + 1) :: rat)"
    using dpos by (simp add: pos_divide_le_eq)
  moreover have "x + 1 / of_int d = (of_int a + 1) / of_int d"
    by (simp add: x_def add_divide_distrib)
  ultimately have "p < of_int (\<lfloor>x\<rfloor> + 1)" using up by linarith
  then have "\<lfloor>p\<rfloor> < \<lfloor>x\<rfloor> + 1" by (simp only: floor_less_iff)
  then have upper: "\<lfloor>p\<rfloor> \<le> \<lfloor>x\<rfloor>" by simp
  have "of_int (\<lceil>x\<rceil> - 1) < x" by linarith
  then have "of_int (\<lceil>x\<rceil> - 1) * of_int d < x * of_int d"
    using dpos by (simp only: mult_less_cancel_right_pos)
  then have "(of_int ((\<lceil>x\<rceil> - 1) * d) :: rat) < of_int a" by (simp add: xd)
  then have "(\<lceil>x\<rceil> - 1) * d < a" by (simp only: of_int_less_iff)
  then have "(\<lceil>x\<rceil> - 1) * d \<le> a - 1" by simp
  then have "(of_int ((\<lceil>x\<rceil> - 1) * d) :: rat) \<le> of_int (a - 1)" by (simp only: of_int_le_iff)
  then have "(of_int (\<lceil>x\<rceil> - 1) :: rat) \<le> (of_int a - 1) / of_int d"
    using dpos by (simp add: pos_le_divide_eq)
  moreover have "x - 1 / of_int d = (of_int a - 1) / of_int d"
    by (simp add: x_def diff_divide_distrib)
  ultimately have "of_int (\<lceil>x\<rceil> - 1) \<le> p" using lo by linarith
  then have lower: "\<lceil>x\<rceil> - 1 \<le> \<lfloor>p\<rfloor>" by (simp only: le_floor_iff)
  show ?thesis using lower upper by (simp add: x_def)
qed

lemma normalize_sample_bounds:
  fixes v mn mx :: "16 word"
  assumes "mn \<le> v" "v \<le> mx" "mn < mx"
  shows "uint (normalize_sample v mn mx)
           = \<lfloor>fl64 (fl64 (of_nat (unat (v - mn)) / of_nat (unat (mx - mn))) * 65535)\<rfloor>
       \<and> \<lceil>exact_scaled v mn mx\<rceil> - 1 \<le> uint (normalize_sample v mn mx)
       \<and> uint (normalize_sample v mn mx) \<le> \<lfloor>exact_scaled v mn mx\<rfloor>"
proof -
  define k where "k = unat v - unat mn"
  define d where "d = unat mx - unat mn"
  have le: "unat mn \<le> unat v" "unat v \<le> unat mx" "unat mn < unat mx"
    using assms by (simp_all add: word_le_nat_alt word_less_nat_alt)
  have uk: "unat (v - mn) = k" using assms(1) by (simp add: k_def unat_sub)
  have ud: "unat (mx - mn) = d" using assms(3) by (simp add: d_def unat_sub)
  have uk': "(unsigned (v - mn) :: rat) = of_nat k" by (subst of_nat_unat [symmetric]) (simp only: uk)
  have ud': "(unsigned (mx - mn) :: rat) = of_nat d" by (subst of_nat_unat [symmetric]) (simp only: ud)
  have kd: "k \<le> d" "0 < d" using le by (simp_all add: k_def d_def)
  have "unat mx < 2 ^ 16" using unsigned_less [of mx, where ?'a = nat] by simp
  then have d16: "d \<le> 65535" by (simp add: d_def)
  define r :: rat where "r = of_nat k / of_nat d"
  define p where "p = fl64 (fl64 r * 65535)"
  have ex: "exact_scaled v mn mx = of_int (int k * 65535) / of_int (int d)"
    using le by (simp add: exact_scaled_def k_def d_def of_nat_diff)
  have rx: "r * 65535 = of_int (int k * 65535) / of_int (int d)"
    by (simp add: r_def)
  have close: "\<bar>p - of_int (int k * 65535) / of_int (int d)\<bar> < 1 / of_int (int d)"
  proof (cases "k = 0")
    case True
    then show ?thesis using kd(2) by (simp add: p_def r_def fl64_def)
  next
    case False
    then have "0 < r" "r \<le> 1" using kd by (simp_all add: r_def)
    then have "\<bar>p - r * 65535\<bar> < 1 / 65535"
      unfolding p_def by (rule scaled_error)
    also have "(1::rat) / 65535 \<le> 1 / of_int (int d)"
      using kd(2) d16 by (simp add: frac_le)
    finally show ?thesis by (simp only: rx)
  qed
  note fb = floor_near_fraction [OF _ close]
  have dpos: "0 < int d" using kd(2) by simp
  have lower: "\<lceil>exact_scaled v mn mx\<rceil> - 1 \<le> \<lfloor>p\<rfloor>"
    and upper: "\<lfloor>p\<rfloor> \<le> \<lfloor>exact_scaled v mn mx\<rfloor>"
    using fb [OF dpos] by (simp_all only: ex)
  have "0 \<le> \<lfloor>p\<rfloor>"
  proof (cases "k = 0")
    case True
    then show ?thesis by (simp add: p_def r_def fl64_def)
  next
    case False
    then have "0 < exact_scaled v mn mx"
      unfolding ex using kd by (simp add: zero_less_divide_iff)
    then have "0 < \<lceil>exact_scaled v mn mx\<rceil>" by (simp only: zero_less_ceiling)
    then show ?thesis using lower by linarith
  qed
  have "exact_scaled v mn mx \<le> 65535"
  proof -
    have "r \<le> 1" using kd by (simp add: r_def)
    then show ?thesis unfolding ex rx [symmetric] by simp
  qed
  then have "\<lfloor>exact_scaled v mn mx\<rfloor> \<le> 65535" by (simp add: floor_le_iff)
  then have "\<lfloor>p\<rfloor> \<le> 65535" using upper by linarith
  have p0: "\<not> p < 0" using \<open>0 \<le> \<lfloor>p\<rfloor>\<close> by (simp add: zero_le_floor)
  have ns: "normalize_sample v mn mx = word_of_int \<lfloor>p\<rfloor>"
    using p0 by (simp add: normalize_sample_def astype_uint16_def uk ud p_def r_def)
  have "uint (word_of_int \<lfloor>p\<rfloor> :: 16 word) = \<lfloor>p\<rfloor>"
    using \<open>0 \<le> \<lfloor>p\<rfloor>\<close> \<open>\<lfloor>p\<rfloor> \<le> 65535\<close> by (simp add: uint_word_of_int take_bit_int_eq_self)
  then show ?thesis
    using lower upper by (simp add: ns) (simp add: p_def r_def uk' ud')
qed

lemma elem_in_elems:
  "y < shape a ! 0 \<Longrightarrow> x < shape a ! 1 \<Longrightarrow> elem a [y, x] \<in> set (elems a)"
  by (force simp: elems_def)

lemma tile_sample_range:
  assumes "\<not> degenerate tile" "y < shape tile ! 0" "x < shape tile ! 1"
  shows "tile_min tile \<le> elem tile [y, x]" "elem tile [y, x] \<le> tile_max tile"
    "tile_min tile < tile_max tile"
proof -
  have v: "elem tile [y, x] \<in> set (elems tile)"
    using assms(2,3) by (rule elem_in_elems)
  show 1: "tile_min tile \<le> elem tile [y, x]"
    unfolding tile_min_def using v by (intro Min_le) simp_all
  show 2: "elem tile [y, x] \<le> tile_max tile"
    unfolding tile_max_def using v by (intro Max_ge) simp_all
  from 1 2 have "tile_min tile \<le> tile_max tile" by (rule order_trans)
  with assms(1) show "tile_min tile < tile_max tile"
    by (auto simp: degenerate_def)
qed

lemma elems_skew_tile: "elems skew_tile = [0, 1, 4, 4]"
  by (simp add: elems_def skew_tile_def upt_conv_Cons)

lemma skew_tile_range: "tile_min skew_tile = 0" "tile_max skew_tile = 4"
  by (simp_all add: tile_min_def tile_max_def elems_skew_tile)

lemma skew_tile_sample: "elem skew_tile [0, Suc 0] = 1"
  by (simp add: skew_tile_def)

lemma skew_tile_exact: "exact_scaled 1 0 4 = 65535 / 4"
  by (simp add: exact_scaled_def)


text \<open>
  C2, as the code has it. For every non-degenerate tile, each normalized sample is the
  double-precision value of \<open>(v - min) / (max - min) \<times> 65535\<close> with its fraction
  dropped by the cast to \<^verbatim>\<open>uint16\<close>, not rounded to the nearest integer. Against the
  exact quotient it is never above the floor and never below the ceiling minus one, so
  it is the floor whenever the exact quotient is not an integer.
\<close>

theorem normalized_sample_is_truncated:
  assumes "\<not> degenerate tile" "y < shape tile ! 0" "x < shape tile ! 1"
  shows "uint (elem (normalized_tile T tile) [y, x])
           = \<lfloor>fl64 (fl64 (of_nat (unat (elem tile [y, x] - tile_min tile))
                            / of_nat (unat (tile_max tile - tile_min tile))) * 65535)\<rfloor>
       \<and> \<lceil>exact_scaled (elem tile [y, x]) (tile_min tile) (tile_max tile)\<rceil> - 1
           \<le> uint (elem (normalized_tile T tile) [y, x])
       \<and> uint (elem (normalized_tile T tile) [y, x])
           \<le> \<lfloor>exact_scaled (elem tile [y, x]) (tile_min tile) (tile_max tile)\<rfloor>"
proof -
  have "elem (normalized_tile T tile) [y, x]
      = normalize_sample (elem tile [y, x]) (tile_min tile) (tile_max tile)"
    using assms(1) by (simp add: normalized_tile_def normalize_def)
  then show ?thesis
    using normalize_sample_bounds [OF tile_sample_range [OF assms]] by simp
qed

theorem normalized_sample_is_truncated_witness:
  "\<not> degenerate skew_tile \<and> 0 < shape skew_tile ! 0 \<and> 1 < shape skew_tile ! 1
   \<and> exact_scaled (elem skew_tile [0, 1]) (tile_min skew_tile) (tile_max skew_tile) = 65535 / 4
   \<and> uint (elem (normalized_tile 2 skew_tile) [0, 1]) = 16383"
proof -
  have h1: "\<not> degenerate skew_tile" by (simp add: degenerate_def skew_tile_range)
  have h2: "0 < shape skew_tile ! 0" by (simp add: skew_tile_def)
  have h3: "1 < shape skew_tile ! 1" by (simp add: skew_tile_def)
  have c: "\<lceil>65535 / 4 :: rat\<rceil> = 16384" by (simp add: ceiling_unique)
  have f: "\<lfloor>65535 / 4 :: rat\<rfloor> = 16383" by (simp add: floor_unique)
  from normalized_sample_is_truncated [OF h1 h2 h3, of 2]
  have "uint (elem (normalized_tile 2 skew_tile) [0, 1]) = 16383"
    by (simp add: skew_tile_range skew_tile_sample skew_tile_exact c f)
  then show ?thesis
    using h1 h2 h3 by (simp add: skew_tile_range skew_tile_sample skew_tile_exact)
qed


text \<open>
  C2, as the claim states it, fails: in a tile with minimum 0 and maximum 4 the sample 1
  scales to 16383.75; the code stores 16383, the rounding of the claim is 16384.
\<close>

theorem normalized_sample_not_rounded:
  "\<not> degenerate skew_tile \<and>
   uint (elem (normalized_tile 2 skew_tile) [0, 1])
     \<noteq> round (exact_scaled (elem skew_tile [0, 1]) (tile_min skew_tile) (tile_max skew_tile))"
proof -
  have h1: "\<not> degenerate skew_tile" by (simp add: degenerate_def skew_tile_range)
  have n: "normalize_sample 1 0 4 = 16383" by code_simp
  have r: "round (65535 / 4 :: rat) = 16384" by (simp add: round_def floor_unique)
  have "elem (normalized_tile 2 skew_tile) [0, 1] = 16383"
    using h1 by (simp add: normalized_tile_def normalize_def skew_tile_range skew_tile_sample n)
  then show ?thesis
    using h1 r by (simp add: skew_tile_range skew_tile_sample skew_tile_exact)
qed

section \<open>Facts about the manifest\<close>

lemma foldM_invariant:
  assumes "foldM f s xs = Inr s'" "P s" "\<And>s x s'. P s \<Longrightarrow> f s x = Inr s' \<Longrightarrow> P s'"
  shows "P s'"
  using assms(1,2)
proof (induction xs arbitrary: s)
  case Nil
  then show ?case by simp
next
  case (Cons x xs)
  from Cons.prems(1) obtain s1 where s1: "f s x = Inr s1" "foldM f s1 xs = Inr s'"
    by (auto split: sum.splits)
  from assms(3) [OF Cons.prems(2) s1(1)] have "P s1" .
  with Cons.IH s1(2) show ?case by blast
qed

lemma is_tile_record_metadata: "is_tile_record (tile_metadata f d T i j h)"
  by (simp add: is_tile_record_def is_position_def tile_metadata_def)

lemma tile_step_records:
  assumes "tile_step sha w f d T a i st j = Inr st'" "\<forall>t\<in>set (p_tiles st). is_tile_record t"
  shows "\<forall>t\<in>set (p_tiles st'). is_tile_record t"
proof -
  from assms(1) obtain r where r: "process_tile sha w f d T a i j = Inr r"
    and st': "st' = add_cells st [r]"
    by (auto simp: tile_step_def add_cells_def split: sum.splits)
  from r have "r = cell_result sha w f d T a i j"
    by (auto simp: process_tile_def Let_def split: if_splits)
  then have "is_tile_record (snd (snd r))"
    by (simp add: cell_result_def Let_def is_tile_record_metadata)
  with assms(2) show ?thesis by (simp add: st' add_cells_def)
qed

lemma loops_records:
  assumes "foldM (\<lambda>st i. foldM (tile_step sha w f d T a i) st js) st0 is = Inr st"
    and "\<forall>t\<in>set (p_tiles st0). is_tile_record t"
  shows "\<forall>t\<in>set (p_tiles st). is_tile_record t"
proof (rule foldM_invariant [OF assms(1), where P = "\<lambda>st. \<forall>t\<in>set (p_tiles st). is_tile_record t"])
  show "\<forall>t\<in>set (p_tiles st0). is_tile_record t" by (rule assms(2))
next
  fix s i s'
  assume inv: "\<forall>t\<in>set (p_tiles s). is_tile_record t"
    and row: "foldM (tile_step sha w f d T a i) s js = Inr s'"
  show "\<forall>t\<in>set (p_tiles s'). is_tile_record t"
    by (rule foldM_invariant [OF row, where P = "\<lambda>st. \<forall>t\<in>set (p_tiles st). is_tile_record t"])
       (use inv tile_step_records in blast)+
qed

lemma elems_two_constants_left: "elems (tile_at two_constants 1 0 0) = [5]"
  by (simp add: elems_def tile_at_def slice2_def slice_index_def two_constants_def)

lemma two_constants_degenerate:
  "degenerate (tile_at two_constants 1 0 0)" "degenerate (tile_at two_constants 1 0 (Suc 0))"
  by (simp_all add: degenerate_def tile_min_def tile_max_def elems_two_constants_left
      elems_two_constants_right)

lemma hash_zero_tile: "calculate_hash sha (zeros (Suc 0) (Suc 0)) = sha [0, 0]"
  by (simp add: calculate_hash_def tobytes_def elems_def zeros_def le_bytes_def)

lemma example_names:
  "tile_id_of ''m31.fits'' 0 0 = ''m31.fits_tile_0_0''"
  "tile_id_of ''m31.fits'' 0 (Suc 0) = ''m31.fits_tile_0_1''"
  "basename (tile_filename_of ''m31.fits'' ''out'' 0 0) = ''m31.fits_tile_0_0.png''"
  "basename (tile_filename_of ''m31.fits'' ''out'' 0 (Suc 0)) = ''m31.fits_tile_0_1.png''"
  "basename ''m31.fits'' = ''m31.fits''"
  by (simp_all add: tile_filename_of_def tile_id_of_def path_join_def basename_def
      str_nat.simps digit_def)

lemma example_run:
  "fits_to_tiles toy_sha (quiet_world two_constants) ''m31.fits'' ''out'' 1
     = Inr (grid_outcome toy_sha (quiet_world two_constants) ''m31.fits'' ''out'' 1 two_constants)"
  by (rule fits_to_tiles_grid [where H = 1 and W = 2])
     (simp_all add: quiet_world_def two_constants_def)

lemma example_run_manifest:
  "manifest_of (fits_to_tiles toy_sha (quiet_world two_constants) ''m31.fits'' ''out'' 1)
     = Some example_manifest"
proof -
  have sh: "shape two_constants = [1, 2]" by (simp add: two_constants_def)
  have c: "cells (Suc 0) 2 = [(0, 0), (0, Suc 0)]" by (simp add: cells_def upt_conv_Cons)
  have q: "\<not> dump_raises (quiet_world two_constants)" by (simp add: quiet_world_def)
  show ?thesis
    unfolding example_run
    using q two_constants_degenerate
    by (simp add: manifest_of_def grid_outcome_def grid_results_def sh c cell_result_def
        Let_def normalized_tile_def tile_metadata_def hash_zero_tile example_names example_manifest_def)
qed


text \<open>
  C8, as the code has it. Every manifest a run writes is a dictionary with exactly the
  keys \<open>fits_file\<close> (a string, the base name of the source), \<open>tile_size\<close> (an integer)
  and \<open>tiles\<close> (a list), in this order, and every element of \<open>tiles\<close> is a dictionary
  with exactly the keys \<open>tile_id\<close>, \<open>filename\<close>, \<open>hash\<close> (strings) and \<open>position\<close>, a
  dictionary with exactly the integer keys \<open>x_start\<close>, \<open>y_start\<close>, \<open>x_end\<close>, \<open>y_end\<close>.
\<close>

theorem persisted_manifest_fields:
  assumes "manifest_of (fits_to_tiles sha w f d T) = Some m"
  shows "\<exists>ts. m = PyDict [(''fits_file'', PyStr (basename f)), (''tile_size'', PyInt T),
                         (''tiles'', PyList ts)]
              \<and> (\<forall>t\<in>set ts. is_tile_record t)"
proof -
  from assms obtain a st where
    loop: "foldM (\<lambda>st i. foldM (tile_step sha w f d T a i) st
                   [0..<nat (int (shape a ! 1) div T)])
             \<lparr>p_log = [], p_files = [], p_tiles = []\<rparr> [0..<nat (int (shape a ! 0) div T)] = Inr st"
    and m: "m = PyDict [(''fits_file'', PyStr (basename f)), (''tile_size'', PyInt T),
                        (''tiles'', PyList (p_tiles st))]"
    by (auto simp: manifest_of_def fits_to_tiles_def failed_def Let_def
        split: if_splits hdu.splits sum.splits)
  from loops_records [OF loop] have "\<forall>t\<in>set (p_tiles st). is_tile_record t" by simp
  with m show ?thesis by blast
qed

theorem persisted_manifest_fields_witness:
  "manifest_of (fits_to_tiles toy_sha (quiet_world two_constants) ''m31.fits'' ''out'' 1)
     = Some example_manifest
   \<and> dict_keys example_manifest = [''fits_file'', ''tile_size'', ''tiles'']
   \<and> getitem example_manifest ''fits_file'' = Inr (PyStr (basename ''m31.fits''))
   \<and> getitem example_manifest ''tile_size'' = Inr (PyInt 1)
   \<and> is_tile_record
        (PyDict [(''tile_id'', PyStr ''m31.fits_tile_0_1''),
                 (''filename'', PyStr ''m31.fits_tile_0_1.png''),
                 (''hash'', PyStr (toy_sha [0, 0])),
                 (''position'', PyDict [(''x_start'', PyInt 1), (''y_start'', PyInt 0),
                                        (''x_end'', PyInt 2), (''y_end'', PyInt 1)])])"
proof -
  note h = example_run_manifest
  from persisted_manifest_fields [OF h] obtain ts where
    m: "example_manifest = PyDict [(''fits_file'', PyStr (basename ''m31.fits'')),
                                   (''tile_size'', PyInt 1), (''tiles'', PyList ts)]"
    and ts: "\<forall>t\<in>set ts. is_tile_record t"
    by blast
  from m have "PyDict [(''tile_id'', PyStr ''m31.fits_tile_0_1''),
                 (''filename'', PyStr ''m31.fits_tile_0_1.png''),
                 (''hash'', PyStr (toy_sha [0, 0])),
                 (''position'', PyDict [(''x_start'', PyInt 1), (''y_start'', PyInt 0),
                                        (''x_end'', PyInt 2), (''y_end'', PyInt 1)])] \<in> set ts"
    by (auto simp: example_manifest_def)
  with ts have "is_tile_record
        (PyDict [(''tile_id'', PyStr ''m31.fits_tile_0_1''),
                 (''filename'', PyStr ''m31.fits_tile_0_1.png''),
                 (''hash'', PyStr (toy_sha [0, 0])),
                 (''position'', PyDict [(''x_start'', PyInt 1), (''y_start'', PyInt 0),
                                        (''x_end'', PyInt 2), (''y_end'', PyInt 1)])])"
    by blast
  moreover have "dict_keys example_manifest = [''fits_file'', ''tile_size'', ''tiles'']"
    by (subst m) simp
  moreover have "getitem example_manifest ''fits_file'' = Inr (PyStr (basename ''m31.fits''))"
    "getitem example_manifest ''tile_size'' = Inr (PyInt 1)"
    by (subst m, simp)+
  ultimately show ?thesis using h by simp
qed


text \<open>
  C8, as the claim states it, fails: the manifest has no field \<open>source_name\<close>; the
  source is recorded under \<open>fits_file\<close>.
\<close>

theorem manifest_has_no_source_name:
  "manifest_of (fits_to_tiles toy_sha (quiet_world two_constants) ''m31.fits'' ''out'' 1)
     = Some example_manifest
   \<and> dict_keys example_manifest \<noteq> [''source_name'', ''tile_size'', ''tiles'']
   \<and> getitem example_manifest ''source_name'' = Inl KeyError"
  using example_run_manifest by (simp add: example_manifest_def)

section \<open>Facts about the duplicate detector\<close>

lemma scan_tile_Some:
  "tile_fields t = Some r \<Longrightarrow> scan_tile st t = Inr (record_step st r)"
  by (auto simp: tile_fields_def scan_tile_def record_step_def
      split: sum.splits if_splits option.splits)

lemma scan_tile_None:
  "tile_fields t = None \<Longrightarrow> \<exists>e. scan_tile st t = Inl e"
  by (auto simp: tile_fields_def scan_tile_def split: sum.splits if_splits option.splits)

lemma scan_tiles_records:
  "fst (scan_tiles st ts)
     = foldl record_step st (List.map_filter tile_fields (takeWhile (\<lambda>t. tile_fields t \<noteq> None) ts))"
proof (induction ts arbitrary: st)
  case Nil
  show ?case by (simp add: List.map_filter_simps)
next
  case (Cons t ts)
  show ?case
  proof (cases "tile_fields t")
    case None
    from scan_tile_None [OF this] obtain e where "scan_tile st t = Inl e" ..
    with None show ?thesis by (simp add: List.map_filter_simps)
  next
    case (Some r)
    from scan_tile_Some [OF this] have "scan_tile st t = Inr (record_step st r)" .
    with Some Cons.IH show ?thesis by (cases r) (simp add: List.map_filter_simps)
  qed
qed

lemma record_step_errors:
  "record_step (st\<lparr>scan_errors := E\<rparr>) r = (record_step st r)\<lparr>scan_errors := E\<rparr>"
  by (simp add: record_step_def split: option.splits)

lemma foldl_record_step_errors:
  "foldl record_step (st\<lparr>scan_errors := E\<rparr>) rs = (foldl record_step st rs)\<lparr>scan_errors := E\<rparr>"
  by (induction rs arbitrary: st) (simp_all add: record_step_errors)

lemma record_step_keeps_errors: "scan_errors (record_step st r) = scan_errors st"
  by (simp add: record_step_def split: option.splits)

lemma scan_file_records:
  "\<exists>E. scan_file st (p, c) = (foldl record_step st (records_of c))\<lparr>scan_errors := E\<rparr>"
proof -
  have same: "\<exists>E. s = s\<lparr>scan_errors := E\<rparr>" for s :: scan
    by (rule exI [of _ "scan_errors s"]) simp
  have upd: "\<exists>E. s\<lparr>scan_errors := E'\<rparr> = s\<lparr>scan_errors := E\<rparr>" for s :: scan and E'
    by blast
  show ?thesis
  proof (cases c)
    case None
    then show ?thesis by (simp add: scan_file_def records_of_def upd)
  next
    case (Some m)
    show ?thesis
    proof (cases "get_tiles m")
      case (Inl e)
      with Some show ?thesis by (simp add: scan_file_def records_of_def upd)
    next
      case (Inr v)
      show ?thesis
      proof (cases "iter_items v")
        case (Inl e)
        with Some Inr show ?thesis by (simp add: scan_file_def records_of_def upd)
      next
        case ts: (Inr ts)
        obtain st' r where sc: "scan_tiles st ts = (st', r)" by (cases "scan_tiles st ts")
        have "st' = foldl record_step st (records_of c)"
          using scan_tiles_records [of st ts] sc Some Inr ts by (simp add: records_of_def)
        then show ?thesis
          using Some Inr ts sc by (cases r) (simp_all add: scan_file_def same upd)
      qed
    qed
  qed
qed

lemma foldl_scan_file_records:
  "\<exists>E. foldl scan_file st files
     = (foldl record_step st (concat (map (\<lambda>(p, c). records_of c) files)))\<lparr>scan_errors := E\<rparr>"
proof (induction files arbitrary: st)
  case Nil
  show ?case by (simp, rule exI [of _ "scan_errors st"]) simp
next
  case (Cons f files)
  obtain p c where f: "f = (p, c)" by (cases f)
  from scan_file_records [of st p c] obtain E where
    E: "scan_file st (p, c) = (foldl record_step st (records_of c))\<lparr>scan_errors := E\<rparr>" ..
  from Cons.IH [of "foldl record_step st (records_of c)"] obtain E' where
    E': "foldl scan_file (foldl record_step st (records_of c)) files
       = (foldl record_step (foldl record_step st (records_of c))
            (concat (map (\<lambda>(p, c). records_of c) files)))\<lparr>scan_errors := E'\<rparr>" ..
  from Cons.IH [of "(foldl record_step st (records_of c))\<lparr>scan_errors := E\<rparr>"]
  show ?case
    by (auto simp: f E foldl_record_step_errors)
qed

lemma first_seen_append:
  "h \<in> fst ` set rs \<Longrightarrow> first_seen (rs @ ys) h = first_seen rs h"
proof -
  assume "h \<in> fst ` set rs"
  then have "filter (\<lambda>r. fst r = h) rs \<noteq> []"
    by (auto simp: filter_empty_conv)
  then show ?thesis by (simp add: first_seen_def)
qed

lemma first_seen_new:
  "fst r \<notin> fst ` set rs \<Longrightarrow> first_seen (rs @ [r]) (fst r) = r"
proof -
  assume "fst r \<notin> fst ` set rs"
  then have "\<forall>x\<in>set rs. fst x \<noteq> fst r" by (metis imageI)
  then have "filter (\<lambda>x. fst x = fst r) rs = []"
    by (simp only: filter_empty_conv)
  then show ?thesis by (simp add: first_seen_def)
qed

lemma earlier_hash_iff:
  "(\<exists>j<length rs. fst (rs ! j) = h) \<longleftrightarrow> h \<in> fst ` set rs"
proof
  assume "\<exists>j<length rs. fst (rs ! j) = h"
  then obtain j where "j < length rs" "fst (rs ! j) = h" by blast
  then show "h \<in> fst ` set rs" by (metis imageI nth_mem)
next
  assume "h \<in> fst ` set rs"
  then obtain x where "x \<in> set rs" "h = fst x" by blast
  then show "\<exists>j<length rs. fst (rs ! j) = h" by (metis in_set_conv_nth)
qed

lemma later_occurrences_snoc:
  "later_occurrences (rs @ [r])
     = later_occurrences rs @ (if fst r \<in> fst ` set rs then [length rs] else [])"
proof -
  have old: "filter (\<lambda>k. \<exists>j<k. fst ((rs @ [r]) ! j) = fst ((rs @ [r]) ! k)) [0..<length rs]
      = filter (\<lambda>k. \<exists>j<k. fst (rs ! j) = fst (rs ! k)) [0..<length rs]"
  proof (rule filter_cong [OF refl])
    fix k assume "k \<in> set [0..<length rs]"
    then have k: "k < length rs" by simp
    then have "\<And>j. j < k \<Longrightarrow> (rs @ [r]) ! j = rs ! j" by (simp add: nth_append)
    moreover have "(rs @ [r]) ! k = rs ! k" using k by (simp add: nth_append)
    ultimately show "(\<exists>j<k. fst ((rs @ [r]) ! j) = fst ((rs @ [r]) ! k))
        \<longleftrightarrow> (\<exists>j<k. fst (rs ! j) = fst (rs ! k))"
      by auto
  qed
  have "\<And>j. j < length rs \<Longrightarrow> (rs @ [r]) ! j = rs ! j" by (simp add: nth_append)
  then have "(\<exists>j<length rs. fst ((rs @ [r]) ! j) = fst ((rs @ [r]) ! length rs))
      \<longleftrightarrow> (\<exists>j<length rs. fst (rs ! j) = fst r)"
    by auto
  then have new: "(\<exists>j<length rs. fst ((rs @ [r]) ! j) = fst ((rs @ [r]) ! length rs))
      \<longleftrightarrow> fst r \<in> fst ` set rs"
    by (simp only: earlier_hash_iff)
  show ?thesis
    using old new by (simp add: later_occurrences_def)
qed

lemma duplicate_pair_old:
  assumes "k \<in> set (later_occurrences rs)"
  shows "duplicate_pair (rs @ [r]) k = duplicate_pair rs k"
proof -
  from assms have k: "k < length rs" by (simp add: later_occurrences_def)
  then have "fst (rs ! k) \<in> fst ` set rs" by simp
  then show ?thesis
    using k by (simp add: duplicate_pair_def nth_append first_seen_append)
qed

lemma expected_pairs_snoc:
  "expected_pairs (rs @ [r])
     = expected_pairs rs @
       (if fst r \<in> fst ` set rs
        then [(fst (snd r), snd (snd r),
               fst (snd (first_seen rs (fst r))), snd (snd (first_seen rs (fst r))))]
        else [])"
proof -
  have "map (duplicate_pair (rs @ [r])) (later_occurrences rs) = expected_pairs rs"
    unfolding expected_pairs_def by (rule map_cong [OF refl]) (rule duplicate_pair_old)
  moreover have "fst r \<in> fst ` set rs \<Longrightarrow> duplicate_pair (rs @ [r]) (length rs)
      = (fst (snd r), snd (snd r),
         fst (snd (first_seen rs (fst r))), snd (snd (first_seen rs (fst r))))"
    by (simp add: duplicate_pair_def first_seen_append)
  ultimately show ?thesis
    by (simp add: expected_pairs_def later_occurrences_snoc)
qed

lemma record_steps_state:
  "hash_dict (foldl record_step scan_start rs) h
     = (if h \<in> fst ` set rs then Some (snd (first_seen rs h)) else None)
   \<and> duplicates (foldl record_step scan_start rs) = expected_pairs rs"
proof (induction rs arbitrary: h rule: rev_induct)
  case Nil
  show ?case by (simp add: scan_start_def expected_pairs_def later_occurrences_def)
next
  case (snoc r rs)
  let ?S = "foldl record_step scan_start rs"
  have dict: "hash_dict ?S h = (if h \<in> fst ` set rs then Some (snd (first_seen rs h)) else None)" for h
    using snoc.IH by blast
  have dups: "duplicates ?S = expected_pairs rs" using snoc.IH by blast
  show ?case
  proof (cases "fst r \<in> fst ` set rs")
    case True
    then have step: "record_step ?S r = ?S\<lparr>duplicates := duplicates ?S @
        [(fst (snd r), snd (snd r),
          fst (snd (first_seen rs (fst r))), snd (snd (first_seen rs (fst r))))]\<rparr>"
      by (simp add: record_step_def dict [of "fst r"] split: prod.splits)
    have "h \<in> fst ` set (rs @ [r]) \<longleftrightarrow> h \<in> fst ` set rs" using True by auto
    then show ?thesis
      using True by (auto simp: step dict dups expected_pairs_snoc first_seen_append)
  next
    case False
    then have step: "record_step ?S r = ?S\<lparr>hash_dict := (hash_dict ?S)(fst r \<mapsto> snd r)\<rparr>"
      by (simp add: record_step_def dict [of "fst r"])
    show ?thesis
      using False
      by (auto simp: step dict dups expected_pairs_snoc first_seen_append first_seen_new)
  qed
qed

lemma distinct_no_later_occurrence:
  assumes "distinct (map fst rs)"
  shows "later_occurrences rs = []"
proof -
  have "\<not> (\<exists>j<k. fst (rs ! j) = fst (rs ! k))" if "k < length rs" for k
  proof
    assume "\<exists>j<k. fst (rs ! j) = fst (rs ! k)"
    then obtain j where j: "j < k" "fst (rs ! j) = fst (rs ! k)" by blast
    with that have "map fst rs ! j = map fst rs ! k" "j < length (map fst rs)"
      "k < length (map fst rs)" by simp_all
    with assms have "j = k" by (simp only: nth_eq_iff_index_eq)
    with j(1) show False by simp
  qed
  then show ?thesis by (simp add: later_occurrences_def filter_empty_conv)
qed

lemma seen_repeated_walk:
  "seen_records repeated_walk =
     [(PyStr ''h1'', PyStr ''a_0'', PyStr ''a_0.png''), (PyStr ''h1'', PyStr ''a_1'', PyStr ''a_1.png''),
      (PyStr ''h2'', PyStr ''b_0'', PyStr ''b_0.png''), (PyStr ''h1'', PyStr ''b_1'', PyStr ''b_1.png'')]"
  by code_simp

lemma seen_distinct_walk:
  "seen_records distinct_walk =
     [(PyStr ''h1'', PyStr ''a_0'', PyStr ''a_0.png''), (PyStr ''h2'', PyStr ''a_1'', PyStr ''a_1.png'')]"
  by code_simp

lemma expected_repeated:
  "expected_pairs
     [(PyStr ''h1'', PyStr ''a_0'', PyStr ''a_0.png''), (PyStr ''h1'', PyStr ''a_1'', PyStr ''a_1.png''),
      (PyStr ''h2'', PyStr ''b_0'', PyStr ''b_0.png''), (PyStr ''h1'', PyStr ''b_1'', PyStr ''b_1.png'')]
   = [(PyStr ''a_1'', PyStr ''a_1.png'', PyStr ''a_0'', PyStr ''a_0.png''),
      (PyStr ''b_1'', PyStr ''b_1.png'', PyStr ''a_0'', PyStr ''a_0.png'')]"
  by code_simp


lemma find_duplicates_expected:
  "duplicates (find_duplicates walk) = expected_pairs (seen_records walk)"
proof -
  from foldl_scan_file_records [of scan_start "discovered walk"] obtain E where
    "find_duplicates walk = (foldl record_step scan_start (seen_records walk))\<lparr>scan_errors := E\<rparr>"
    by (auto simp: find_duplicates_def seen_records_def scan_start_def)
  then show ?thesis
    using record_steps_state [of "seen_records walk"] by simp
qed

text \<open>
  C3. For every directory listing, the list of duplicates of the scan is the list the
  specification describes, over the tile records the scan sees in order: one pair for
  each record whose hash occurs in an earlier record, in the order of the later
  occurrences, each pairing the later record with the first record of that hash; and
  when all hashes are distinct the list is empty.
\<close>

theorem find_duplicates_pairs:
  "duplicates (find_duplicates walk) = expected_pairs (seen_records walk)
   \<and> (distinct (map fst (seen_records walk)) \<longrightarrow> duplicates (find_duplicates walk) = [])"
  using find_duplicates_expected [of walk] distinct_no_later_occurrence [of "seen_records walk"]
  by (simp add: expected_pairs_def)

theorem find_duplicates_pairs_witness:
  "duplicates (find_duplicates repeated_walk)
     = [(PyStr ''a_1'', PyStr ''a_1.png'', PyStr ''a_0'', PyStr ''a_0.png''),
        (PyStr ''b_1'', PyStr ''b_1.png'', PyStr ''a_0'', PyStr ''a_0.png'')]
   \<and> distinct (map fst (seen_records distinct_walk))
   \<and> duplicates (find_duplicates distinct_walk) = []"
proof -
  have d: "distinct (map fst (seen_records distinct_walk))"
    by (simp add: seen_distinct_walk)
  from find_duplicates_pairs [of repeated_walk]
  have 1: "duplicates (find_duplicates repeated_walk)
     = [(PyStr ''a_1'', PyStr ''a_1.png'', PyStr ''a_0'', PyStr ''a_0.png''),
        (PyStr ''b_1'', PyStr ''b_1.png'', PyStr ''a_0'', PyStr ''a_0.png'')]"
    by (simp only: seen_repeated_walk expected_repeated)
  from find_duplicates_pairs [of distinct_walk] d
  have 2: "duplicates (find_duplicates distinct_walk) = []" by blast
  from 1 d 2 show ?thesis by blast
qed

section \<open>Degenerate tiles and the duplicate detector\<close>

lemma tile_fields_metadata:
  "tile_fields (tile_metadata f d T i j h)
     = Some (PyStr h, PyStr (tile_id_of f i j), PyStr (basename (tile_filename_of f d i j)))"
  by (simp add: tile_fields_def tile_metadata_def)

lemma map_filter_all_Some:
  "\<forall>x\<in>set xs. f x = Some (g x) \<Longrightarrow>
     List.map_filter f (takeWhile (\<lambda>t. f t \<noteq> None) xs) = map g xs"
  by (induction xs) (simp_all add: List.map_filter_simps)

lemma lower_suffix: "lower ''_metadata.json'' = ''_metadata.json''"
  by (simp add: lower_def lower_char_def)

lemma endswith_append: "endswith (x @ s) s"
  by (simp add: endswith_def)

lemma discovered_manifest:
  "discovered [(d, [(name @ ''_metadata.json'', c)])]
     = [(path_join d (name @ ''_metadata.json''), c)]"
proof -
  have "lower (name @ ''_metadata.json'') = lower name @ ''_metadata.json''"
    using lower_suffix by (simp add: lower_def)
  then have "endswith (lower (name @ ''_metadata.json'')) ''_metadata.json''"
    by (simp only: endswith_append)
  then show ?thesis by (simp add: discovered_def)
qed

lemma grid_manifest:
  assumes "primary_hdu w = Data a" "shape a = [H, W]" "0 < T" "nat T \<le> H" "nat T \<le> W"
    and "\<not> makedirs_raises w" "\<not> dump_raises w"
  shows "manifest_of (fits_to_tiles sha w f d T) = Some (PyDict
      [(''fits_file'', PyStr (basename f)), (''tile_size'', PyInt T),
       (''tiles'', PyList (map (\<lambda>c. tile_metadata f d T (fst c) (snd c) (cell_hash sha T a c))
                            (cells (H div nat T) (W div nat T))))])"
  using assms(7)
  by (simp add: fits_to_tiles_grid [OF assms(1-6)] manifest_of_def grid_outcome_def
      grid_results_def assms(2) cell_result_def Let_def cell_hash_def case_prod_beta comp_def)

lemma seen_grid_manifest:
  assumes "primary_hdu w = Data a" "shape a = [H, W]" "0 < T" "nat T \<le> H" "nat T \<le> W"
    and "\<not> makedirs_raises w" "\<not> dump_raises w"
  shows "seen_records [(d, [(basename f @ ''_metadata.json'', manifest_of (fits_to_tiles sha w f d T))])]
     = map (cell_record sha f d T a) (cells (H div nat T) (W div nat T))"
proof -
  let ?cs = "cells (H div nat T) (W div nat T)"
  let ?md = "\<lambda>c. tile_metadata f d T (fst c) (snd c) (cell_hash sha T a c)"
  have "\<forall>t\<in>set (map ?md ?cs). tile_fields t = Some ((\<lambda>t. the (tile_fields t)) t)"
    by (auto simp: tile_fields_metadata)
  then have "List.map_filter tile_fields (takeWhile (\<lambda>t. tile_fields t \<noteq> None) (map ?md ?cs))
      = map (\<lambda>t. the (tile_fields t)) (map ?md ?cs)"
    by (rule map_filter_all_Some)
  also have "\<dots> = map (cell_record sha f d T a) ?cs"
    by (simp add: tile_fields_metadata cell_record_def)
  finally show ?thesis
    by (simp add: seen_records_def discovered_manifest grid_manifest [OF assms] records_of_def)
qed

lemma hd_filter_first:
  assumes "k < length xs" "P (xs ! k)" "\<forall>x\<in>set (take k xs). \<not> P x"
  shows "hd (filter P xs) = xs ! k"
proof -
  have "xs = take k xs @ xs ! k # drop (Suc k) xs"
    using assms(1) by (simp add: id_take_nth_drop)
  then have "filter P xs = filter P (take k xs) @ filter P (xs ! k # drop (Suc k) xs)"
    by (metis filter_append)
  moreover have "filter P (take k xs) = []"
    using assms(3) by (simp add: filter_empty_conv)
  ultimately show ?thesis using assms(2) by simp
qed

lemma degenerate_cell_hash:
  "degenerate (tile_at a T i j) \<Longrightarrow>
     cell_hash sha T a (i, j) = calculate_hash sha (zeros (nat T) (nat T))"
  by (simp add: cell_hash_def normalized_tile_def)


text \<open>
  C10. Any two degenerate tiles get the same hash under the same tile size, whatever
  their constant values, since both are hashed as the all-zero tile. So when a raster has
  two degenerate grid cells, a scan of its manifest reports the later cell as a
  duplicate; and when no cell before the earlier one has that hash, the pair reported is
  the later cell with the earlier one.
\<close>

theorem degenerate_tiles_share_hash_and_are_duplicates:
  assumes "primary_hdu w = Data a" "shape a = [H, W]" "0 < T"
    and "\<not> makedirs_raises w" "\<not> dump_raises w"
    and "i1 < H div nat T" "j1 < W div nat T" "i2 < H div nat T" "j2 < W div nat T"
    and "i1 * (W div nat T) + j1 < i2 * (W div nat T) + j2"
    and "degenerate (tile_at a T i1 j1)" "degenerate (tile_at a T i2 j2)"
  shows "(\<forall>t1 t2. degenerate t1 \<and> degenerate t2 \<longrightarrow>
            calculate_hash sha (normalized_tile T t1) = calculate_hash sha (normalized_tile T t2))
     \<and> cell_hash sha T a (i1, j1) = cell_hash sha T a (i2, j2)
     \<and> (\<exists>first_id first_file.
           (PyStr (tile_id_of f i2 j2), PyStr (basename (tile_filename_of f d i2 j2)),
            first_id, first_file)
           \<in> set (duplicates (find_duplicates
                [(d, [(basename f @ ''_metadata.json'', manifest_of (fits_to_tiles sha w f d T))])])))
     \<and> ((\<forall>c\<in>set (take (i1 * (W div nat T) + j1) (cells (H div nat T) (W div nat T))).
             cell_hash sha T a c \<noteq> cell_hash sha T a (i1, j1)) \<longrightarrow>
          (PyStr (tile_id_of f i2 j2), PyStr (basename (tile_filename_of f d i2 j2)),
           PyStr (tile_id_of f i1 j1), PyStr (basename (tile_filename_of f d i1 j1)))
           \<in> set (duplicates (find_duplicates
                [(d, [(basename f @ ''_metadata.json'', manifest_of (fits_to_tiles sha w f d T))])])))"
proof -
  let ?rows = "H div nat T" and ?cols = "W div nat T"
  let ?cs = "cells ?rows ?cols"
  let ?k1 = "i1 * ?cols + j1" and ?k2 = "i2 * ?cols + j2"
  let ?walk = "[(d, [(basename f @ ''_metadata.json'', manifest_of (fits_to_tiles sha w f d T))])]"
  let ?rs = "map (cell_record sha f d T a) ?cs"
  have T: "nat T \<le> H" "nat T \<le> W"
    using assms(3,6,7) by (auto simp: div_greater_zero_iff dest: gr_implies_not0 intro: ccontr)
  have seen: "seen_records ?walk = ?rs"
    by (rule seen_grid_manifest [OF assms(1,2,3) T assms(4,5)])
  have dups: "duplicates (find_duplicates ?walk) = expected_pairs ?rs"
    using find_duplicates_expected [of ?walk] by (simp only: seen)
  have "Suc i2 * ?cols \<le> ?rows * ?cols"
    using assms(8) by (intro mult_le_mono1) simp
  then have k2: "?k2 < length ?cs" using assms(9) by (simp add: length_cells)
  then have k1: "?k1 < length ?cs" using assms(10) by simp
  have c1: "?cs ! ?k1 = (i1, j1)" by (rule nth_cells [OF assms(6,7)])
  have c2: "?cs ! ?k2 = (i2, j2)" by (rule nth_cells [OF assms(8,9)])
  have r1: "?rs ! ?k1 = cell_record sha f d T a (i1, j1)" using k1 c1 by simp
  have r2: "?rs ! ?k2 = cell_record sha f d T a (i2, j2)" using k2 c2 by simp
  have same: "cell_hash sha T a (i1, j1) = cell_hash sha T a (i2, j2)"
    using assms(11,12) by (simp add: degenerate_cell_hash)
  have "fst (?rs ! ?k1) = fst (?rs ! ?k2)"
    unfolding r1 r2 using same by (simp add: cell_record_def)
  with assms(10) have "\<exists>j<?k2. fst (?rs ! j) = fst (?rs ! ?k2)" by blast
  then have later: "?k2 \<in> set (later_occurrences ?rs)"
    using k2 by (simp add: later_occurrences_def)
  then have mem: "duplicate_pair ?rs ?k2 \<in> set (duplicates (find_duplicates ?walk))"
    unfolding dups expected_pairs_def by simp
  have general: "\<forall>t1 t2. degenerate t1 \<and> degenerate t2 \<longrightarrow>
      calculate_hash sha (normalized_tile T t1) = calculate_hash sha (normalized_tile T t2)"
    by (simp add: normalized_tile_def)
  have pair: "duplicate_pair ?rs ?k2 =
      (PyStr (tile_id_of f i2 j2), PyStr (basename (tile_filename_of f d i2 j2)),
       fst (snd (first_seen ?rs (PyStr (cell_hash sha T a (i2, j2))))),
       snd (snd (first_seen ?rs (PyStr (cell_hash sha T a (i2, j2))))))"
    by (simp only: duplicate_pair_def r2) (simp add: cell_record_def)
  have some: "\<exists>first_id first_file.
      (PyStr (tile_id_of f i2 j2), PyStr (basename (tile_filename_of f d i2 j2)),
       first_id, first_file) \<in> set (duplicates (find_duplicates ?walk))"
    using mem unfolding pair by blast
  have first: "(PyStr (tile_id_of f i2 j2), PyStr (basename (tile_filename_of f d i2 j2)),
       PyStr (tile_id_of f i1 j1), PyStr (basename (tile_filename_of f d i1 j1)))
       \<in> set (duplicates (find_duplicates ?walk))"
    if none: "\<forall>c\<in>set (take ?k1 ?cs). cell_hash sha T a c \<noteq> cell_hash sha T a (i1, j1)"
  proof -
    have "\<forall>r\<in>set (take ?k1 ?rs). \<not> fst r = PyStr (cell_hash sha T a (i2, j2))"
      using none same by (auto simp: take_map cell_record_def)
    moreover have "fst (?rs ! ?k1) = PyStr (cell_hash sha T a (i2, j2))"
      unfolding r1 using same by (simp add: cell_record_def)
    moreover have "?k1 < length ?rs" using k1 by simp
    ultimately have "first_seen ?rs (PyStr (cell_hash sha T a (i2, j2))) = ?rs ! ?k1"
      unfolding first_seen_def by (intro hd_filter_first) simp_all
    then have "duplicate_pair ?rs ?k2 =
      (PyStr (tile_id_of f i2 j2), PyStr (basename (tile_filename_of f d i2 j2)),
       PyStr (tile_id_of f i1 j1), PyStr (basename (tile_filename_of f d i1 j1)))"
      unfolding pair r1 by (simp add: cell_record_def)
    with mem show ?thesis by simp
  qed
  show ?thesis
    using general same some first by blast
qed

theorem degenerate_tiles_share_hash_and_are_duplicates_witness:
  "primary_hdu (quiet_world two_constants) = Data two_constants
   \<and> shape two_constants = [1, 2] \<and> (0::int) < 1
   \<and> \<not> makedirs_raises (quiet_world two_constants) \<and> \<not> dump_raises (quiet_world two_constants)
   \<and> (0::nat) < 1 div nat 1 \<and> (0::nat) < 2 div nat 1 \<and> (1::nat) < 2 div nat 1
   \<and> (0::nat) * (2 div nat 1) + 0 < 0 * (2 div nat 1) + 1
   \<and> degenerate (tile_at two_constants 1 0 0) \<and> degenerate (tile_at two_constants 1 0 1)
   \<and> elem two_constants [0, 0] = 5 \<and> elem two_constants [0, 1] = 7
   \<and> cell_hash toy_sha 1 two_constants (0, 0) = cell_hash toy_sha 1 two_constants (0, 1)
   \<and> (PyStr ''m31.fits_tile_0_1'', PyStr ''m31.fits_tile_0_1.png'',
       PyStr ''m31.fits_tile_0_0'', PyStr ''m31.fits_tile_0_0.png'')
      \<in> set (duplicates (find_duplicates
            [(''out'', [(''m31.fits_metadata.json'', Some example_manifest)])]))"
proof -
  have h1: "primary_hdu (quiet_world two_constants) = Data two_constants"
    by (simp add: quiet_world_def)
  have h2: "shape two_constants = [1, 2]" by (simp add: two_constants_def)
  have h3: "(0::int) < 1" by simp
  have h4: "\<not> makedirs_raises (quiet_world two_constants)" by (simp add: quiet_world_def)
  have h5: "\<not> dump_raises (quiet_world two_constants)" by (simp add: quiet_world_def)
  have h6: "(0::nat) < 1 div nat 1" by simp
  have h7: "(0::nat) < 2 div nat 1" by simp
  have h8: "(1::nat) < 2 div nat 1" by simp
  have h9: "(0::nat) * (2 div nat 1) + 0 < 0 * (2 div nat 1) + 1" by simp
  have h10: "degenerate (tile_at two_constants 1 0 0)"
    by (rule two_constants_degenerate(1))
  have h11: "degenerate (tile_at two_constants 1 0 1)"
    using two_constants_degenerate(2) by simp
  have v: "elem two_constants [0, 0] = 5" "elem two_constants [0, 1] = 7"
    by (simp_all add: two_constants_def)
  have none: "\<forall>c\<in>set (take (0 * (2 div nat 1) + 0) (cells (1 div nat 1) (2 div nat 1))).
      cell_hash toy_sha 1 two_constants c \<noteq> cell_hash toy_sha 1 two_constants (0, 0)"
    by simp
  note t = degenerate_tiles_share_hash_and_are_duplicates
    [OF h1 h2 h3 h4 h5 h6 h7 h6 h8 h9 h10 h11, of toy_sha "''m31.fits''" "''out''"]
  from t have same: "cell_hash toy_sha 1 two_constants (0, 0) = cell_hash toy_sha 1 two_constants (0, 1)"
    by blast
  from t none have "(PyStr (tile_id_of ''m31.fits'' 0 1),
       PyStr (basename (tile_filename_of ''m31.fits'' ''out'' 0 1)),
       PyStr (tile_id_of ''m31.fits'' 0 0),
       PyStr (basename (tile_filename_of ''m31.fits'' ''out'' 0 0)))
      \<in> set (duplicates (find_duplicates
            [(''out'', [(basename ''m31.fits'' @ ''_metadata.json'',
               manifest_of (fits_to_tiles toy_sha (quiet_world two_constants) ''m31.fits'' ''out'' 1))])]))"
    by blast
  then have pair: "(PyStr ''m31.fits_tile_0_1'', PyStr ''m31.fits_tile_0_1.png'',
       PyStr ''m31.fits_tile_0_0'', PyStr ''m31.fits_tile_0_0.png'')
      \<in> set (duplicates (find_duplicates
            [(''out'', [(''m31.fits_metadata.json'', Some example_manifest)])]))"
    by (simp add: example_names example_run_manifest)
  show ?thesis
    using h1 h2 h4 h5 h10 h11 v same pair by simp
qed

section \<open>Facts about the reconstructor\<close>

lemma bind_Inr [simp]: "bind (Inr v) f = f v"
  by (simp add: bind_def)

lemma bind_Inl [simp]: "bind (Inl e) f = Inl e"
  by (simp add: bind_def)

lemma placement_of_SomeD:
  assumes "placement_of t = Some p"
  shows "getitem t ''filename'' = Inr (PyStr (tile_file p))"
    and "position_of t ''x_start'' = Inr (PyInt (x_start p))"
    and "position_of t ''y_start'' = Inr (PyInt (y_start p))"
    and "position_of t ''x_end'' = Inr (PyInt (x_end p))"
    and "position_of t ''y_end'' = Inr (PyInt (y_end p))"
  using assms
  by (auto simp: placement_of_def split: sum.splits pyval.splits)

lemma mapM_Inr:
  "\<forall>x\<in>set xs. f x = Inr (g x) \<Longrightarrow> mapM f xs = Inr (map g xs)"
  by (induction xs) simp_all

lemma mapM_as_int: "mapM as_int (map PyInt ns) = Inr ns"
  by (induction ns) simp_all

lemma py_max_ints: "ns \<noteq> [] \<Longrightarrow> py_max (map PyInt ns) = Inr (Max (set ns))"
  by (simp add: py_max_def mapM_as_int)












lemma mapM_placements:
  assumes "map placement_of tiles = map Some ps"
    and "\<And>t p. placement_of t = Some p \<Longrightarrow> f t = Inr (g p)"
  shows "mapM f tiles = Inr (map g ps)"
  using assms(1)
proof (induction tiles arbitrary: ps)
  case Nil
  then show ?case by simp
next
  case (Cons t tiles)
  then obtain p ps' where "ps = p # ps'" "placement_of t = Some p"
    "map placement_of tiles = map Some ps'"
    by (cases ps) auto
  with Cons.IH assms(2) show ?case by simp
qed

lemma py_max_coords:
  assumes "ps \<noteq> []"
  shows "py_max (map (\<lambda>p. PyInt (c p)) ps) = Inr (Max (c ` set ps))"
proof -
  have "map (\<lambda>p. PyInt (c p)) ps = map PyInt (map c ps)" by simp
  moreover have "py_max (map PyInt (map c ps)) = Inr (Max (set (map c ps)))"
    using assms by (intro py_max_ints) simp
  ultimately show ?thesis by (simp only: set_map)
qed




lemma reconstruct_empty_manifest_raises:
  assumes "load_json env = Some (PyDict [(''fits_file'', PyStr name), (''tile_size'', PyInt T),
                                          (''tiles'', PyList [])])"
  shows "reconstruct_image_from_tiles env mf od = Inl ValueError"
  by (simp add: reconstruct_image_from_tiles_def assms py_max_def)








text \<open>
  A canvas whose width does not fit a signed 64-bit integer is refused by \<^verbatim>\<open>np.zeros\<close>,
  outside any \<^verbatim>\<open>try\<close> block: the run ends with the exception.
\<close>

lemma reconstruct_oversized_canvas_raises:
  assumes "load_json env = Some metadata"
    and "getitem metadata ''tile_size'' = Inr tsz"
    and "getitem metadata ''tiles'' = Inr (PyList tiles)"
    and "map placement_of tiles = map Some ps" "ps \<noteq> []"
    and "2 ^ 63 \<le> Max (x_end ` set ps)"
  shows "reconstruct_image_from_tiles env mf od = Inl ValueError"
proof -
  let ?H = "Max (y_end ` set ps)" and ?W = "Max (x_end ` set ps)"
  have xs: "mapM (\<lambda>tile. position_of tile ''x_end'') tiles = Inr (map (\<lambda>p. PyInt (x_end p)) ps)"
    by (rule mapM_placements [OF assms(4)]) (rule placement_of_SomeD(4))
  have ys: "mapM (\<lambda>tile. position_of tile ''y_end'') tiles = Inr (map (\<lambda>p. PyInt (y_end p)) ps)"
    by (rule mapM_placements [OF assms(4)]) (rule placement_of_SomeD(5))
  have mx: "py_max (map (\<lambda>p. PyInt (x_end p)) ps) = Inr ?W"
    and my: "py_max (map (\<lambda>p. PyInt (y_end p)) ps) = Inr ?H"
    using assms(5) by (simp_all add: py_max_coords)
  have "np_zeros (memory_short env) ?H ?W = Inl ValueError"
    using assms(6) by (simp add: np_zeros_def)
  then show ?thesis
    by (simp add: reconstruct_image_from_tiles_def assms(1-3) xs ys mx my)
qed




end
